theory Spec2Isabelle
  imports Complex_Main "HOL-Library.Log_Nat" "HOL-Library.AList"
begin

section \<open>JavaScript numbers\<close>

text \<open>
  Every number of \<^verbatim>\<open>src/lib/aiDetection.ts\<close> is an IEEE 754 binary64 value. A finite double
  is modelled by the real number it denotes, and every arithmetic operation rounds its exact
  result to the nearest double, ties to even (\<open>rnd\<close>). The significand has 53 bits; the exponent
  range is left unbounded, since all quantities of the program (weights, ratios of counts, sums
  of confidences) are either zero or lie far inside the normal range. A decimal literal such as
  \<^verbatim>\<open>0.3\<close> denotes \<open>rnd (3 / 10)\<close>. Array lengths are below \<open>2 ^ 32\<close> and hence exact.
\<close>

definition ilog2 :: "real \<Rightarrow> int" where
  \<comment> \<open>the binary exponent \<open>\<lfloor>log\<^sub>2 x\<rfloor>\<close> of a positive number\<close>
  "ilog2 x = (if 1 \<le> x then bitlen \<lfloor>x\<rfloor> - 1 else - bitlen (\<lceil>1 / x\<rceil> - 1))"

definition rne :: "real \<Rightarrow> int" where
  \<comment> \<open>round to the nearest integer, ties to even\<close>
  "rne y = (if y - of_int \<lfloor>y\<rfloor> < 1 / 2 then \<lfloor>y\<rfloor>
            else if 1 / 2 < y - of_int \<lfloor>y\<rfloor> then \<lfloor>y\<rfloor> + 1
            else if even \<lfloor>y\<rfloor> then \<lfloor>y\<rfloor> else \<lfloor>y\<rfloor> + 1)"

definition rnd :: "real \<Rightarrow> real" where
  "rnd x = (if x = 0 then 0
            else sgn x * of_int (rne (\<bar>x\<bar> / 2 powi (ilog2 \<bar>x\<bar> - 52))) * 2 powi (ilog2 \<bar>x\<bar> - 52))"

definition fadd :: "real \<Rightarrow> real \<Rightarrow> real" where
  "fadd x y = rnd (x + y)"

definition fmul :: "real \<Rightarrow> real \<Rightarrow> real" where
  "fmul x y = rnd (x * y)"

definition fdiv :: "real \<Rightarrow> real \<Rightarrow> real" where
  \<comment> \<open>only used with a divisor that is not zero\<close>
  "fdiv x y = rnd (x / y)"

definition ratio_gt :: "nat \<Rightarrow> nat \<Rightarrow> real \<Rightarrow> bool" where
  \<comment> \<open>\<^verbatim>\<open>k / n > t\<close> for two counts: \<^verbatim>\<open>0 / 0\<close> is NaN, which compares false, and
      \<^verbatim>\<open>k / 0\<close> is \<^verbatim>\<open>Infinity\<close> for a positive \<open>k\<close>\<close>
  "ratio_gt k n t = (if n = 0 then 0 < k else t < fdiv (of_nat k) (of_nat n))"

section \<open>JavaScript strings\<close>

text \<open>
  A string is a list of code units; the model covers the code units below 256. \<open>is_ws\<close> is the
  white space and line terminator set of \<^verbatim>\<open>String.prototype.trim\<close> and of \<^verbatim>\<open>\s\<close> in that range,
  \<open>is_word\<close> is \<^verbatim>\<open>\w\<close>, \<open>is_digit\<close> is \<^verbatim>\<open>\d\<close>. \<open>canonicalize\<close> is the case folding of an
  ignore-case regular expression; no code unit from 128 to 255 folds to an ASCII letter, and
  ASCII letters are all that the ignore-case patterns of the program contain.
\<close>

definition code_unit :: "char \<Rightarrow> nat" where
  "code_unit c = of_char c"

definition is_ws :: "char \<Rightarrow> bool" where
  "is_ws c = (code_unit c \<in> {9, 10, 11, 12, 13, 32, 160})"

definition is_line_terminator :: "char \<Rightarrow> bool" where
  "is_line_terminator c = (code_unit c \<in> {10, 13})"

definition is_digit :: "char \<Rightarrow> bool" where
  "is_digit c = (48 \<le> code_unit c \<and> code_unit c \<le> 57)"

definition is_lower :: "char \<Rightarrow> bool" where
  "is_lower c = (97 \<le> code_unit c \<and> code_unit c \<le> 122)"

definition is_upper :: "char \<Rightarrow> bool" where
  "is_upper c = (65 \<le> code_unit c \<and> code_unit c \<le> 90)"

definition is_word :: "char \<Rightarrow> bool" where
  "is_word c = (is_lower c \<or> is_upper c \<or> is_digit c \<or> code_unit c = 95)"

definition canonicalize :: "char \<Rightarrow> char" where
  "canonicalize c = (if is_lower c then char_of (code_unit c - 32) else c)"

definition trim :: "string \<Rightarrow> string" where
  "trim s = rev (dropWhile is_ws (rev (dropWhile is_ws s)))"

fun split_nl :: "string \<Rightarrow> string list" where
  \<comment> \<open>\<^verbatim>\<open>s.split('\n')\<close>\<close>
  "split_nl [] = [[]]"
| "split_nl (c # cs) =
     (if c = CHR 0x0A then [] # split_nl cs
      else (case split_nl cs of [] \<Rightarrow> [[c]] | l # ls \<Rightarrow> (c # l) # ls))"

fun join_nl :: "string list \<Rightarrow> string" where
  \<comment> \<open>\<^verbatim>\<open>lines.join('\n')\<close>, used to write down inputs of several lines\<close>
  "join_nl [] = []"
| "join_nl [l] = l"
| "join_nl (l # ls) = l @ CHR 0x0A # join_nl ls"

definition starts_with :: "string \<Rightarrow> string \<Rightarrow> bool" where
  "starts_with s p = (take (length p) s = p)"

section \<open>Regular expressions\<close>

text \<open>
  The regular expressions of the source are kept as syntax trees and run by a backtracking
  matcher that follows the ECMAScript semantics: \<open>rmatch\<close> returns every way in which a
  pattern can match at a position, in the order in which backtracking would try them, so the
  head of the list is the match that JavaScript reports. A matcher state holds the index, the
  code unit before it (for \<^verbatim>\<open>\b\<close> and \<^verbatim>\<open>^\<close>), the rest of the input and the captured groups.
  A quantifier \<open>Rep min max greedy r\<close> rejects an iteration that consumes nothing once \<open>min\<close> is
  used up, as the specification's RepeatMatcher does.
\<close>

datatype citem = One char | ClassW | ClassS | ClassD | ClassNotS

datatype regex =
    Chr char | CharSet "citem list" | NotCharSet "citem list" | AnyChar
  | Eps | Seq regex regex | Alt regex regex
  | Rep nat "nat option" bool regex
  | Group nat regex | BackRef nat
  | Bol | Eol | WordBoundary

datatype mstate =
  MState (pos: nat) (prev: "char option") (rest: string) (caps: "(nat \<times> string) list")

definition same_char :: "bool \<Rightarrow> char \<Rightarrow> char \<Rightarrow> bool" where
  "same_char ic a c = (if ic then canonicalize a = canonicalize c else a = c)"

fun item_has :: "bool \<Rightarrow> citem \<Rightarrow> char \<Rightarrow> bool" where
  "item_has ic (One a) c = same_char ic a c"
| "item_has ic ClassW c = is_word c"
| "item_has ic ClassS c = is_ws c"
| "item_has ic ClassD c = is_digit c"
| "item_has ic ClassNotS c = (\<not> is_ws c)"

definition set_has :: "bool \<Rightarrow> citem list \<Rightarrow> char \<Rightarrow> bool" where
  "set_has ic items c = list_ex (\<lambda>it. item_has ic it c) items"

fun rsize :: "regex \<Rightarrow> nat" where
  "rsize (Seq a b) = Suc (rsize a + rsize b)"
| "rsize (Alt a b) = Suc (rsize a + rsize b)"
| "rsize (Rep mn mx g r) = Suc (rsize r)"
| "rsize (Group n r) = Suc (rsize r)"
| "rsize _ = 0"

fun dec_max :: "nat option \<Rightarrow> nat option" where
  "dec_max None = None"
| "dec_max (Some k) = Some (k - 1)"

definition char_step :: "(char \<Rightarrow> bool) \<Rightarrow> mstate \<Rightarrow> mstate list" where
  "char_step p x = (case rest x of [] \<Rightarrow> []
     | c # cs \<Rightarrow> if p c then [MState (Suc (pos x)) (Some c) cs (caps x)] else [])"

definition assert_step :: "bool \<Rightarrow> mstate \<Rightarrow> mstate list" where
  "assert_step b x = (if b then [x] else [])"

definition word_before :: "mstate \<Rightarrow> bool" where
  "word_before x = (case prev x of None \<Rightarrow> False | Some c \<Rightarrow> is_word c)"

definition word_after :: "mstate \<Rightarrow> bool" where
  "word_after x = (case rest x of [] \<Rightarrow> False | c # cs \<Rightarrow> is_word c)"

definition line_start :: "bool \<Rightarrow> mstate \<Rightarrow> bool" where
  "line_start ml x = (case prev x of None \<Rightarrow> True | Some c \<Rightarrow> ml \<and> is_line_terminator c)"

definition line_end :: "bool \<Rightarrow> mstate \<Rightarrow> bool" where
  "line_end ml x = (case rest x of [] \<Rightarrow> True | c # cs \<Rightarrow> ml \<and> is_line_terminator c)"

fun advance :: "bool \<Rightarrow> string \<Rightarrow> mstate \<Rightarrow> mstate list" where
  "advance ic [] x = [x]"
| "advance ic (a # as) x = (case rest x of [] \<Rightarrow> []
     | c # cs \<Rightarrow> if same_char ic a c
                then advance ic as (MState (Suc (pos x)) (Some c) cs (caps x)) else [])"

definition backref_step :: "bool \<Rightarrow> nat \<Rightarrow> mstate \<Rightarrow> mstate list" where
  \<comment> \<open>a group that has not captured matches the empty string\<close>
  "backref_step ic n x = (case map_of (caps x) n of None \<Rightarrow> [x] | Some t \<Rightarrow> advance ic t x)"

definition captured :: "mstate \<Rightarrow> mstate \<Rightarrow> string" where
  "captured x y = take (pos y - pos x) (rest x)"

definition progress :: "nat \<Rightarrow> mstate \<Rightarrow> mstate \<Rightarrow> bool" where
  \<comment> \<open>an iteration of a quantifier whose minimum is used up must consume input\<close>
  "progress mn x y = (if mn = 0 then length (rest y) < length (rest x)
                      else length (rest y) \<le> length (rest x))"

function (sequential) rmatch :: "bool \<Rightarrow> bool \<Rightarrow> regex \<Rightarrow> mstate \<Rightarrow> mstate list" where
  "rmatch ic ml (Chr a) x = char_step (same_char ic a) x"
| "rmatch ic ml (CharSet items) x = char_step (set_has ic items) x"
| "rmatch ic ml (NotCharSet items) x = char_step (\<lambda>c. \<not> set_has ic items c) x"
| "rmatch ic ml AnyChar x = char_step (\<lambda>c. \<not> is_line_terminator c) x"
| "rmatch ic ml Eps x = [x]"
| "rmatch ic ml (Seq a b) x = concat (map (rmatch ic ml b) (rmatch ic ml a x))"
| "rmatch ic ml (Alt a b) x = rmatch ic ml a x @ rmatch ic ml b x"
| "rmatch ic ml (Rep mn mx g r) x =
     (if g then
        (if mx = Some 0 then []
         else concat (map (\<lambda>y. if progress mn x y
                                then rmatch ic ml (Rep (mn - 1) (dec_max mx) g r) y else [])
                          (rmatch ic ml r x)))
        @ (if mn = 0 then [x] else [])
      else
        (if mn = 0 then [x] else [])
        @ (if mx = Some 0 then []
           else concat (map (\<lambda>y. if progress mn x y
                                  then rmatch ic ml (Rep (mn - 1) (dec_max mx) g r) y else [])
                            (rmatch ic ml r x))))"
| "rmatch ic ml (Group n r) x =
     map (\<lambda>y. MState (pos y) (prev y) (rest y) ((n, captured x y) # caps y)) (rmatch ic ml r x)"
| "rmatch ic ml (BackRef n) x = backref_step ic n x"
| "rmatch ic ml Bol x = assert_step (line_start ml x) x"
| "rmatch ic ml Eol x = assert_step (line_end ml x) x"
| "rmatch ic ml WordBoundary x = assert_step (word_before x \<noteq> word_after x) x"
  by pat_completeness auto
termination
  by (relation "inv_image (less_than <*lex*> less_than <*lex*> less_than)
        (\<lambda>(ic, ml, r, x). (rsize r, length (rest x), case r of Rep mn mx g r' \<Rightarrow> mn | _ \<Rightarrow> 0))")
     (auto simp: progress_def split: if_splits)

fun scan :: "bool \<Rightarrow> bool \<Rightarrow> regex \<Rightarrow> nat \<Rightarrow> char option \<Rightarrow> string \<Rightarrow> (nat \<times> nat) option" where
  \<comment> \<open>the leftmost match at or after index \<open>p\<close>: its start and its end\<close>
  "scan ic ml r p pv [] =
     (case rmatch ic ml r (MState p pv [] []) of [] \<Rightarrow> None | y # ys \<Rightarrow> Some (p, pos y))"
| "scan ic ml r p pv (c # cs) =
     (case rmatch ic ml r (MState p pv (c # cs) []) of
        [] \<Rightarrow> scan ic ml r (Suc p) (Some c) cs
      | y # ys \<Rightarrow> Some (p, pos y))"


fun count_from :: "bool \<Rightarrow> bool \<Rightarrow> regex \<Rightarrow> nat \<Rightarrow> char option \<Rightarrow> string \<Rightarrow> nat" where
  \<comment> \<open>the number of matches that a global \<^verbatim>\<open>String.prototype.match\<close> collects from index
      \<open>p\<close> on: after a match the search goes on at its end, one further after an empty match\<close>
  "count_from ic ml r p pv [] =
     (case rmatch ic ml r (MState p pv [] []) of [] \<Rightarrow> 0 | y # ys \<Rightarrow> 1)"
| "count_from ic ml r p pv (c # cs) =
     (case rmatch ic ml r (MState p pv (c # cs) []) of
        [] \<Rightarrow> count_from ic ml r (Suc p) (Some c) cs
      | y # ys \<Rightarrow>
          Suc (count_from ic ml r (p + max 1 (pos y - p))
                 (Some ((c # cs) ! (max 1 (pos y - p) - 1)))
                 (drop (max 1 (pos y - p)) (c # cs))))"

record RegExp =
  source :: regex
  global :: bool
  ignoreCase :: bool
  multiline :: bool

definition regexp_exec :: "RegExp \<Rightarrow> string \<Rightarrow> nat \<Rightarrow> (nat \<times> nat) option" where
  \<comment> \<open>RegExpBuiltinExec from a given \<^verbatim>\<open>lastIndex\<close>: start and end of the match\<close>
  "regexp_exec re s i =
     (if length s < i then None
      else scan (ignoreCase re) (multiline re) (source re) i
             (if i = 0 then None else Some (s ! (i - 1))) (drop i s))"

definition regexp_test :: "RegExp \<Rightarrow> nat \<Rightarrow> string \<Rightarrow> bool \<times> nat" where
  \<comment> \<open>\<^verbatim>\<open>re.test(s)\<close> on a regular expression object whose \<^verbatim>\<open>lastIndex\<close> is \<open>li\<close>: the result
      and the new \<^verbatim>\<open>lastIndex\<close>. A global expression searches from \<^verbatim>\<open>lastIndex\<close>, leaves it at
      the end of the match, and resets it to 0 when nothing is found.\<close>
  "regexp_test re li s =
     (case regexp_exec re s (if global re then li else 0) of
        None \<Rightarrow> (False, if global re then 0 else li)
      | Some (k, e) \<Rightarrow> (True, if global re then e else li))"

definition string_match :: "RegExp \<Rightarrow> string \<Rightarrow> (nat \<times> nat) option" where
  \<comment> \<open>\<^verbatim>\<open>s.match(re)\<close> with a fresh expression that is not global\<close>
  "string_match re s = regexp_exec re s 0"

definition match_count :: "RegExp \<Rightarrow> string \<Rightarrow> nat" where
  \<comment> \<open>\<^verbatim>\<open>(s.match(re) || []).length\<close> with a fresh global expression\<close>
  "match_count re s = count_from (ignoreCase re) (multiline re) (source re) 0 None s"

subsection \<open>Building patterns\<close>

fun Str :: "string \<Rightarrow> regex" where
  "Str [] = Eps"
| "Str [c] = Chr c"
| "Str (c # cs) = Seq (Chr c) (Str cs)"

fun Seqs :: "regex list \<Rightarrow> regex" where
  "Seqs [] = Eps"
| "Seqs [r] = r"
| "Seqs (r # rs) = Seq r (Seqs rs)"

fun Alts :: "regex list \<Rightarrow> regex" where
  "Alts [] = NotCharSet [ClassS, ClassNotS]"
| "Alts [r] = r"
| "Alts (r # rs) = Alt r (Alts rs)"

abbreviation Star :: "regex \<Rightarrow> regex" where
  "Star r \<equiv> Rep 0 None True r"

abbreviation Plus :: "regex \<Rightarrow> regex" where
  "Plus r \<equiv> Rep 1 None True r"

abbreviation Words :: "string list \<Rightarrow> regex" where
  "Words ws \<equiv> Alts (map Str ws)"

abbreviation sp :: regex where
  "sp \<equiv> CharSet [ClassS]"

abbreviation wd :: regex where
  "wd \<equiv> CharSet [ClassW]"

abbreviation backslash :: char where
  "backslash \<equiv> CHR 0x5C"

abbreviation flags_g :: "regex \<Rightarrow> RegExp" where
  "flags_g r \<equiv> \<lparr>source = r, global = True, ignoreCase = False, multiline = False\<rparr>"

abbreviation flags_gi :: "regex \<Rightarrow> RegExp" where
  "flags_gi r \<equiv> \<lparr>source = r, global = True, ignoreCase = True, multiline = False\<rparr>"

abbreviation flags_gm :: "regex \<Rightarrow> RegExp" where
  "flags_gm r \<equiv> \<lparr>source = r, global = True, ignoreCase = False, multiline = True\<rparr>"

abbreviation flags_none :: "regex \<Rightarrow> RegExp" where
  "flags_none r \<equiv> \<lparr>source = r, global = False, ignoreCase = False, multiline = False\<rparr>"

abbreviation flags_i :: "regex \<Rightarrow> RegExp" where
  "flags_i r \<equiv> \<lparr>source = r, global = False, ignoreCase = True, multiline = False\<rparr>"


section \<open>The pattern registry\<close>

record DetectionPattern =
  pattern :: RegExp
  weight :: real
  reason :: string
  aiIndicator :: bool

subsection \<open>The expressions of the general patterns\<close>

definition re_comment :: RegExp where
  \<comment> \<open>\<^verbatim>\<open>/\/\*[\s\S]*?\*\/|\/\/.*$/gm\<close>, which the source writes twice\<close>
  "re_comment = flags_gm
     (Alt (Seqs [Str ''/*'', Rep 0 None False (CharSet [ClassS, ClassNotS]), Str ''*/''])
          (Seqs [Str ''//'', Star AnyChar, Eol]))"

definition re_generic :: RegExp where
  \<comment> \<open>\<^verbatim>\<open>/\b(result|response|data|item|element|value|temp|obj|arr)\d*\b/gi\<close>\<close>
  "re_generic = flags_gi (Seqs [WordBoundary,
     Group 1 (Words [''result'', ''response'', ''data'', ''item'', ''element'', ''value'',
                     ''temp'', ''obj'', ''arr'']),
     Star (CharSet [ClassD]), WordBoundary])"

definition re_errors :: RegExp where
  \<comment> \<open>\<^verbatim>\<open>/(try\s*{|catch\s*\(|finally\s*{)/g\<close>\<close>
  "re_errors = flags_g (Group 1 (Alts [
     Seqs [Str ''try'', Star sp, Chr CHR ''{''],
     Seqs [Str ''catch'', Star sp, Chr CHR ''(''],
     Seqs [Str ''finally'', Star sp, Chr CHR ''{'']]))"

definition re_repeat :: RegExp where
  \<comment> \<open>\<^verbatim>\<open>/(\w+)\s*=\s*\1/g\<close>\<close>
  "re_repeat = flags_g (Seqs [Group 1 (Plus wd), Star sp, Chr CHR ''='', Star sp, BackRef 1])"

definition re_todo :: RegExp where
  \<comment> \<open>\<^verbatim>\<open>/(TODO|FIXME|NOTE|HACK):/gi\<close>\<close>
  "re_todo = flags_gi (Seqs [Group 1 (Words [''TODO'', ''FIXME'', ''NOTE'', ''HACK'']),
     Chr CHR '':''])"

definition re_regex :: RegExp where
  \<comment> \<open>\<^verbatim>\<open>/\/(?:\\.|[^\/\\\n])*\/[gimuy]*/g\<close>\<close>
  "re_regex = flags_g (Seqs [Chr CHR ''/'',
     Star (Alt (Seq (Chr backslash) AnyChar)
               (NotCharSet [One CHR ''/'', One backslash, One (CHR 0x0A)])),
     Chr CHR ''/'', Star (CharSet (map One ''gimuy''))])"

definition re_spacing :: RegExp where
  \<comment> \<open>\<^verbatim>\<open>/\s{3,}|\t\s+|\s+\t/g\<close>\<close>
  "re_spacing = flags_g (Alts [Rep 3 None True sp,
     Seqs [Chr (CHR 0x09), Plus sp],
     Seqs [Plus sp, Chr (CHR 0x09)]])"

definition re_abbrev :: RegExp where
  \<comment> \<open>\<^verbatim>\<open>/\b(btn|txt|img|nav|auth|admin|cfg|opts|params|args|ctx|req|res|db|api)\b/gi\<close>\<close>
  "re_abbrev = flags_gi (Seqs [WordBoundary,
     Group 1 (Words [''btn'', ''txt'', ''img'', ''nav'', ''auth'', ''admin'', ''cfg'', ''opts'',
                     ''params'', ''args'', ''ctx'', ''req'', ''res'', ''db'', ''api'']),
     WordBoundary])"

definition AI_PATTERNS :: "DetectionPattern list" where
  "AI_PATTERNS = [
     \<lparr>pattern = re_comment,
      weight = rnd (3 / 10),
      reason = ''Contains verbose or generic comments typical of AI generation'',
      aiIndicator = True\<rparr>,
     \<lparr>pattern = re_generic,
      weight = rnd (4 / 10),
      reason = ''Uses generic variable names common in AI-generated code'',
      aiIndicator = True\<rparr>,
     \<lparr>pattern = re_errors,
      weight = rnd (2 / 10),
      reason = ''Contains comprehensive error handling patterns'',
      aiIndicator = True\<rparr>,
     \<lparr>pattern = re_repeat,
      weight = rnd (3 / 10),
      reason = ''Contains repetitive assignment patterns'',
      aiIndicator = True\<rparr>,
     \<lparr>pattern = re_todo,
      weight = rnd (5 / 10),
      reason = ''Contains TODO/FIXME comments suggesting human planning'',
      aiIndicator = False\<rparr>,
     \<lparr>pattern = re_regex,
      weight = rnd (3 / 10),
      reason = ''Contains complex regex patterns'',
      aiIndicator = False\<rparr>,
     \<lparr>pattern = re_spacing,
      weight = rnd (2 / 10),
      reason = ''Has inconsistent spacing typical of human editing'',
      aiIndicator = False\<rparr>,
     \<lparr>pattern = re_abbrev,
      weight = rnd (3 / 10),
      reason = ''Uses domain-specific abbreviations common in human code'',
      aiIndicator = False\<rparr>]"

subsection \<open>The language-specific patterns\<close>

definition re_console :: RegExp where
  \<comment> \<open>\<^verbatim>\<open>/console\.log\([^)]*\)/g\<close>\<close>
  "re_console = flags_g (Seqs [Str ''console.log('', Star (NotCharSet [One CHR '')'']),
     Chr CHR '')''])"

definition re_function :: RegExp where
  \<comment> \<open>\<^verbatim>\<open>/function\s+\w+\s*\([^)]*\)\s*{/g\<close>\<close>
  "re_function = flags_g (Seqs [Str ''function'', Plus sp, Plus wd, Star sp, Chr CHR ''('',
     Star (NotCharSet [One CHR '')'']), Chr CHR '')'', Star sp, Chr CHR ''{''])"

definition re_print :: RegExp where
  \<comment> \<open>\<^verbatim>\<open>/print\([^)]*\)/g\<close>\<close>
  "re_print = flags_g (Seqs [Str ''print('', Star (NotCharSet [One CHR '')'']), Chr CHR '')''])"

definition re_def :: RegExp where
  \<comment> \<open>\<^verbatim>\<open>/def\s+\w+\s*\([^)]*\):/g\<close>\<close>
  "re_def = flags_g (Seqs [Str ''def'', Plus sp, Plus wd, Star sp, Chr CHR ''('',
     Star (NotCharSet [One CHR '')'']), Chr CHR '')'', Chr CHR '':''])"

definition re_annotation :: RegExp where
  \<comment> \<open>\<^verbatim>\<open>/:\s*(string|number|boolean|any|unknown|void|never)\b/g\<close>\<close>
  "re_annotation = flags_g (Seqs [Chr CHR '':'', Star sp,
     Group 1 (Words [''string'', ''number'', ''boolean'', ''any'', ''unknown'', ''void'',
                     ''never'']),
     WordBoundary])"

definition javascript_patterns :: "DetectionPattern list" where
  "javascript_patterns = [
     \<lparr>pattern = re_console,
      weight = rnd (2 / 10),
      reason = ''Contains debug console.log statements'',
      aiIndicator = False\<rparr>,
     \<lparr>pattern = re_function,
      weight = rnd (1 / 10),
      reason = ''Uses function declarations'',
      aiIndicator = True\<rparr>]"

definition python_patterns :: "DetectionPattern list" where
  "python_patterns = [
     \<lparr>pattern = re_print,
      weight = rnd (2 / 10),
      reason = ''Contains debug print statements'',
      aiIndicator = False\<rparr>,
     \<lparr>pattern = re_def,
      weight = rnd (1 / 10),
      reason = ''Uses function definitions'',
      aiIndicator = True\<rparr>]"

definition typescript_patterns :: "DetectionPattern list" where
  "typescript_patterns = [
     \<lparr>pattern = re_annotation,
      weight = rnd (2 / 10),
      reason = ''Contains explicit type annotations'',
      aiIndicator = True\<rparr>]"

subsection \<open>The expressions of the heuristics and of the structure analyzer\<close>

definition re_punctuation :: RegExp where
  \<comment> \<open>\<^verbatim>\<open>/[{}();,]/\<close>\<close>
  "re_punctuation = flags_none (CharSet (map One ''{}();,''))"

definition re_imperfect :: RegExp where
  \<comment> \<open>\<^verbatim>\<open>/[^\w\s\(\)\[\]{};:,.<>!@#$%^&*+=|\\?/-]/\<close>\<close>
  "re_imperfect = flags_none (NotCharSet ([ClassW, ClassS]
     @ map One ''()[]{};:,.<>!@#$%^&*+=|'' @ [One backslash] @ map One ''?/-''))"

definition re_quirky :: RegExp where
  \<comment> \<open>\<^verbatim>\<open>/\b(foo|bar|baz|qux|quirky|magic|hack|wtf)\b/i\<close>\<close>
  "re_quirky = flags_i (Seqs [WordBoundary,
     Group 1 (Words [''foo'', ''bar'', ''baz'', ''qux'', ''quirky'', ''magic'', ''hack'',
                     ''wtf'']),
     WordBoundary])"

definition re_indent :: RegExp where
  \<comment> \<open>\<^verbatim>\<open>/^\s*/\<close>\<close>
  "re_indent = flags_none (Seqs [Bol, Star sp])"

definition re_defensive :: RegExp where
  \<comment> \<open>\<^verbatim>\<open>/(try|catch|throw|Error|Exception)/g\<close>\<close>
  "re_defensive = flags_g (Group 1 (Words [''try'', ''catch'', ''throw'', ''Error'',
     ''Exception'']))"

text \<open>
  \<^verbatim>\<open>LANGUAGE_PATTERNS\<close> is an object literal, so \<^verbatim>\<open>LANGUAGE_PATTERNS[language]\<close> is a property
  lookup that also finds what the object inherits from \<^verbatim>\<open>Object.prototype\<close>. Each inherited
  property is a function or an object: it is truthy, so \<^verbatim>\<open>|| []\<close> keeps it, and it is not
  iterable.
\<close>

datatype 'a lookup = Own 'a | Inherited | Undefined

definition object_prototype_keys :: "string list" where
  "object_prototype_keys = [''constructor'', ''hasOwnProperty'', ''isPrototypeOf'',
     ''propertyIsEnumerable'', ''toLocaleString'', ''toString'', ''valueOf'', ''__proto__'',
     ''__defineGetter__'', ''__defineSetter__'', ''__lookupGetter__'', ''__lookupSetter__'']"

definition LANGUAGE_PATTERNS :: "string \<Rightarrow> DetectionPattern list lookup" where
  "LANGUAGE_PATTERNS key =
     (if key = ''javascript'' then Own javascript_patterns
      else if key = ''python'' then Own python_patterns
      else if key = ''typescript'' then Own typescript_patterns
      else if key \<in> set object_prototype_keys then Inherited
      else Undefined)"

text \<open>
  Every pattern of the registry carries the \<^verbatim>\<open>g\<close> flag, so its expression object has a
  \<^verbatim>\<open>lastIndex\<close> that \<^verbatim>\<open>test\<close> reads and writes. The registry is created once, when the module is
  loaded; the store holds the \<^verbatim>\<open>lastIndex\<close> of each of its expressions, 0 where nothing is
  recorded.
\<close>

datatype pattern_ref = General nat | Specific string nat

type_synonym store = "(pattern_ref \<times> nat) list"

definition lastIndex :: "store \<Rightarrow> pattern_ref \<Rightarrow> nat" where
  "lastIndex st r = (case map_of st r of None \<Rightarrow> 0 | Some i \<Rightarrow> i)"

definition set_lastIndex :: "pattern_ref \<Rightarrow> nat \<Rightarrow> store \<Rightarrow> store" where
  "set_lastIndex r i st = AList.update r i st"

definition fresh :: store where
  "fresh = []"


section \<open>The structure analyzer\<close>

definition indent_of :: "string \<Rightarrow> string" where
  \<comment> \<open>\<^verbatim>\<open>line.match(/^\s*/)?.[0] || ''\<close>\<close>
  "indent_of line =
     (case string_match re_indent line of
        None \<Rightarrow> []
      | Some (k, e) \<Rightarrow> take (e - k) (drop k line))"

definition indent_step :: "nat \<times> string \<Rightarrow> string \<Rightarrow> nat \<times> string" where
  \<comment> \<open>one round of the indentation loop on \<open>(consistentIndentation, indentPattern)\<close>\<close>
  "indent_step a line =
     (case a of (consistentIndentation, indentPattern) \<Rightarrow>
        (let indent = indent_of line;
             indentPattern' = (if indentPattern = [] \<and> indent \<noteq> [] then indent
                               else indentPattern)
         in (if indent = indentPattern' \<or> indent = [] \<or> starts_with indent indentPattern'
             then Suc consistentIndentation else consistentIndentation,
             indentPattern')))"

definition consistent_count :: "string list \<Rightarrow> nat" where
  \<comment> \<open>\<^verbatim>\<open>consistentIndentation\<close> after the loop over the lines\<close>
  "consistent_count lines = fst (foldl indent_step (0, []) lines)"

definition non_blank_lines :: "string \<Rightarrow> string list" where
  \<comment> \<open>\<^verbatim>\<open>code.split('\n').filter(line => line.trim())\<close>\<close>
  "non_blank_lines code = filter (\<lambda>line. trim line \<noteq> []) (split_nl code)"

definition analyzeCodeStructure :: "string \<Rightarrow> real" where
  "analyzeCodeStructure code =
     (let lines = non_blank_lines code;
          consistentIndentation = consistent_count lines;
          aiScore1 = (if ratio_gt consistentIndentation (length lines) (rnd (9 / 10))
                      then fadd 0 (rnd (3 / 10)) else 0);
          commentLines = match_count re_comment code;
          aiScore2 = (if ratio_gt commentLines (length lines) (rnd (3 / 10))
                      then fadd aiScore1 (rnd (2 / 10)) else aiScore1);
          errorHandlingCount = match_count re_defensive code;
          aiScore3 = (if fmul (of_nat (length lines)) (rnd (1 / 10)) < of_nat errorHandlingCount
                      then fadd aiScore2 (rnd (2 / 10)) else aiScore2)
      in min aiScore3 1)"

section \<open>The line scorer\<close>

record LineAnalysis =
  content :: string
  isAI :: bool
  confidence :: real
  reasons :: "string list"

datatype error = TypeError

text \<open>The local variables \<^verbatim>\<open>aiScore\<close>, \<^verbatim>\<open>humanScore\<close> and \<^verbatim>\<open>reasons\<close> of \<^verbatim>\<open>analyzeLine\<close>.\<close>

record tally =
  aiScore :: real
  humanScore :: real
  noted :: "string list"

definition add_ai :: "real \<Rightarrow> string \<Rightarrow> tally \<Rightarrow> tally" where
  "add_ai w why t = t\<lparr>aiScore := fadd (aiScore t) w, noted := noted t @ [why]\<rparr>"

definition add_human :: "real \<Rightarrow> string \<Rightarrow> tally \<Rightarrow> tally" where
  "add_human w why t = t\<lparr>humanScore := fadd (humanScore t) w, noted := noted t @ [why]\<rparr>"

definition record_match :: "DetectionPattern \<Rightarrow> tally \<Rightarrow> tally" where
  "record_match p t =
     (if aiIndicator p then add_ai (weight p) (reason p) t
      else add_human (weight p) (reason p) t)"

fun for_patterns ::
  "(nat \<Rightarrow> pattern_ref) \<Rightarrow> nat \<Rightarrow> DetectionPattern list \<Rightarrow> string \<Rightarrow> tally \<times> store \<Rightarrow> tally \<times> store"
where
  \<comment> \<open>\<^verbatim>\<open>for (const pattern of ...) if (pattern.pattern.test(content)) ...\<close>; the expression of
      the \<open>i\<close>-th pattern is the object \<open>ref i\<close>\<close>
  "for_patterns ref i [] s a = a"
| "for_patterns ref i (p # ps) s a =
     (case regexp_test (pattern p) (lastIndex (snd a) (ref i)) s of
        (matched, li) \<Rightarrow>
          for_patterns ref (Suc i) ps s
            (if matched then record_match p (fst a) else fst a, set_lastIndex (ref i) li (snd a)))"

definition heuristics :: "string \<Rightarrow> tally \<Rightarrow> tally" where
  "heuristics s t =
     (let t1 = (if 120 < length s
                then add_ai (rnd (2 / 10)) ''Very long line length typical of AI generation'' t
                else if length s < 20 \<and> string_match re_punctuation s = None
                then add_human (rnd (1 / 10)) ''Short, concise line suggests human writing'' t
                else t);
          hasPerfectSyntax = (string_match re_imperfect s = None);
          t2 = (if hasPerfectSyntax \<and> 30 < length s
                then add_ai (rnd (1 / 10)) ''Perfect syntax and structure'' t1 else t1)
      in if string_match re_quirky s \<noteq> None
         then add_human (rnd (3 / 10)) ''Uses creative or placeholder naming typical of humans'' t2
         else t2)"

definition line_tally :: "string \<Rightarrow> string \<Rightarrow> store \<Rightarrow> (error + tally) \<times> store" where
  \<comment> \<open>the scores of a line that is not blank, up to the comment
      \<^verbatim>\<open>// Calculate final scores\<close>; a language entry that is not iterable makes
      \<^verbatim>\<open>for ... of\<close> throw after the general patterns have run\<close>
  "line_tally s language st =
     (case for_patterns General 0 AI_PATTERNS s
             (\<lparr>aiScore = 0, humanScore = 0, noted = []\<rparr>, st) of
        (t1, st1) \<Rightarrow>
          (case LANGUAGE_PATTERNS language of
             Inherited \<Rightarrow> (Inl TypeError, st1)
           | Undefined \<Rightarrow> (Inr (heuristics s t1), st1)
           | Own langPatterns \<Rightarrow>
               (case for_patterns (Specific language) 0 langPatterns s (t1, st1) of
                  (t2, st2) \<Rightarrow> (Inr (heuristics s t2), st2))))"

definition final_scores :: "string \<Rightarrow> tally \<Rightarrow> LineAnalysis" where
  "final_scores line t =
     (let totalScore = fadd (aiScore t) (humanScore t);
          confidence0 = (if 0 < totalScore then fdiv (max (aiScore t) (humanScore t)) totalScore
                         else 1 / 2)
      in \<lparr>content = line,
          isAI = (humanScore t < aiScore t),
          confidence = min (max confidence0 (rnd (1 / 10))) (rnd (95 / 100)),
          reasons = (if noted t = []
                     then [''No significant patterns detected - neutral classification'']
                     else noted t)\<rparr>)"

definition analyzeLine ::
  "string \<Rightarrow> nat \<Rightarrow> string \<Rightarrow> store \<Rightarrow> (error + LineAnalysis) \<times> store" where
  "analyzeLine line lineNumber language st =
     (if trim line = []
      then (Inr \<lparr>content = line, isAI = False, confidence = 1 / 2,
                 reasons = [''Empty line - neutral'']\<rparr>, st)
      else (case line_tally (trim line) language st of
              (Inl e, st') \<Rightarrow> (Inl e, st')
            | (Inr t, st') \<Rightarrow> (Inr (final_scores line t), st')))"

section \<open>The aggregator\<close>

record AnalysisResult =
  totalLines :: nat
  aiLines :: nat
  humanLines :: nat
  aiPercentage :: real
  humanPercentage :: real
  overallConfidence :: real
  lineAnalysis :: "LineAnalysis list"

definition adjust :: "real \<Rightarrow> LineAnalysis \<Rightarrow> LineAnalysis" where
  \<comment> \<open>\<^verbatim>\<open>// Adjust confidence based on overall structure\<close>\<close>
  "adjust structureScore analysis =
     (if 1 / 2 < structureScore \<and> isAI analysis
      then analysis\<lparr>confidence := min (fadd (confidence analysis) (rnd (1 / 10))) (rnd (95 / 100))\<rparr>
      else analysis)"

fun analyze_lines ::
  "real \<Rightarrow> string \<Rightarrow> nat \<Rightarrow> string list \<Rightarrow> store \<Rightarrow> (error + LineAnalysis list) \<times> store"
where
  \<comment> \<open>the loop \<^verbatim>\<open>for (let i = 0; i < lines.length; i++)\<close>, from index \<open>i\<close> on\<close>
  "analyze_lines structureScore language i [] st = (Inr [], st)"
| "analyze_lines structureScore language i (line # lines) st =
     (case analyzeLine line (i + 1) language st of
        (Inl e, st') \<Rightarrow> (Inl e, st')
      | (Inr analysis, st') \<Rightarrow>
          (case analyze_lines structureScore language (Suc i) lines st' of
             (Inl e, st'') \<Rightarrow> (Inl e, st'')
           | (Inr verdicts, st'') \<Rightarrow> (Inr (adjust structureScore analysis # verdicts), st'')))"

definition statistics :: "LineAnalysis list \<Rightarrow> AnalysisResult" where
  \<comment> \<open>\<^verbatim>\<open>// Calculate statistics\<close> and the returned object\<close>
  "statistics las =
     (let nonEmptyLines = filter (\<lambda>l. trim (content l) \<noteq> []) las;
          aiLines = length (filter isAI nonEmptyLines);
          humanLines = length nonEmptyLines - aiLines;
          totalLines = length nonEmptyLines
      in \<lparr>totalLines = totalLines,
          aiLines = aiLines,
          humanLines = humanLines,
          aiPercentage = (if 0 < totalLines
                          then fmul (fdiv (of_nat aiLines) (of_nat totalLines)) 100 else 0),
          humanPercentage = (if 0 < totalLines
                             then fmul (fdiv (of_nat humanLines) (of_nat totalLines)) 100 else 0),
          overallConfidence = (if 0 < length nonEmptyLines
                               then fdiv (foldl (\<lambda>sum line. fadd sum (confidence line)) 0
                                            nonEmptyLines)
                                         (of_nat (length nonEmptyLines))
                               else 1 / 2),
          lineAnalysis = las\<rparr>)"

text \<open>
  \<^verbatim>\<open>analyzeCode\<close> is an \<^verbatim>\<open>async\<close> function: a thrown error rejects the promise it returns. The
  timer that delays it touches nothing that the result depends on and is left out.
\<close>

definition analyzeCode :: "string \<Rightarrow> string \<Rightarrow> store \<Rightarrow> (error + AnalysisResult) \<times> store" where
  "analyzeCode code language st =
     (case analyze_lines (analyzeCodeStructure code) language 0 (split_nl code) st of
        (Inl e, st') \<Rightarrow> (Inl e, st')
      | (Inr las, st') \<Rightarrow> (Inr (statistics las), st'))"


section \<open>Notions used in the statements\<close>

definition settled :: "LineAnalysis \<Rightarrow> bool" where
  \<comment> \<open>a blank line carries the neutral verdict, any other line a clamped confidence\<close>
  "settled v = (if trim (content v) = [] then confidence v = 1 / 2 \<and> \<not> isAI v
                else rnd (1 / 10) \<le> confidence v \<and> confidence v \<le> rnd (95 / 100))"

definition sound :: "tally \<Rightarrow> bool" where
  \<comment> \<open>both scores are doubles that are not negative\<close>
  "sound t = (0 \<le> aiScore t \<and> 0 \<le> humanScore t
              \<and> rnd (aiScore t) = aiScore t \<and> rnd (humanScore t) = humanScore t)"

definition confident :: "LineAnalysis \<Rightarrow> bool" where
  \<comment> \<open>the confidence lies between 0.5 and the double 0.95\<close>
  "confident v = (1 / 2 \<le> confidence v \<and> confidence v \<le> rnd (95 / 100))"

text \<open>The stores and verdicts that the evaluated inputs run through.\<close>

abbreviation zeroed :: store where
  "zeroed \<equiv> [(General 0, 0), (General (Suc 0), 0), (General 2, 0), (General 3, 0),
       (General 4, 0), (General 5, 0), (General 6, 0), (General 7, 0),
       (Specific ''javascript'' 0, 0), (Specific ''javascript'' (Suc 0), 0)]"

abbreviation repeated :: store where
  "repeated \<equiv> [(General 0, 0), (General (Suc 0), 0), (General 2, 0), (General 3, 5),
       (General 4, 0), (General 5, 0), (General 6, 0), (General 7, 0),
       (Specific ''javascript'' 0, 0), (Specific ''javascript'' (Suc 0), 0)]"

abbreviation abc_verdict :: LineAnalysis where
  "abc_verdict \<equiv> \<lparr>content = ''abc'', isAI = False,
     confidence = 4278419646001971 / 4503599627370496,
     reasons = [''Short, concise line suggests human writing'']\<rparr>"

abbreviation xx_verdict :: LineAnalysis where
  "xx_verdict \<equiv> \<lparr>content = ''x = x;'', isAI = True,
     confidence = 4278419646001971 / 4503599627370496,
     reasons = [''Contains repetitive assignment patterns'']\<rparr>"

abbreviation xx_missed :: LineAnalysis where
  "xx_missed \<equiv> \<lparr>content = ''x = x;'', isAI = False, confidence = 1 / 2,
     reasons = [''No significant patterns detected - neutral classification'']\<rparr>"

abbreviation todo_line :: string where
  "todo_line \<equiv> ''// TODO: fix this hack later''"

abbreviation todo_tally :: tally where
  "todo_tally \<equiv> \<lparr>aiScore = 5404319552844595 / 18014398509481984,
     humanScore = 2476979795053773 / 2251799813685248,
     noted = [''Contains verbose or generic comments typical of AI generation'',
              ''Contains TODO/FIXME comments suggesting human planning'',
              ''Contains complex regex patterns'',
              ''Uses creative or placeholder naming typical of humans'']\<rparr>"

abbreviation todo_verdict :: LineAnalysis where
  "todo_verdict \<equiv> \<lparr>content = todo_line, isAI = False,
     confidence = 7077085128725065 / 9007199254740992,
     reasons = [''Contains verbose or generic comments typical of AI generation'',
                ''Contains TODO/FIXME comments suggesting human planning'',
                ''Contains complex regex patterns'',
                ''Uses creative or placeholder naming typical of humans'']\<rparr>"

text \<open>
  Notions for the effect of a TODO marker. With a freshly loaded registry every test starts at
  index 0, so the outcome of a pattern on a line is \<open>hit\<close>, and a line's scores are the fold of
  \<open>note_hit\<close> over the general patterns and the patterns of the language, followed by the
  heuristics. The marker is the text \<^verbatim>\<open>TODO:\<close>; the other outcomes are those of the remaining
  patterns and of the four conditions of the heuristics.
\<close>

definition hit :: "RegExp \<Rightarrow> string \<Rightarrow> bool" where
  \<comment> \<open>\<^verbatim>\<open>re.test(s)\<close> on an expression whose \<^verbatim>\<open>lastIndex\<close> is 0\<close>
  "hit re s = fst (regexp_test re 0 s)"

definition note_hit :: "string \<Rightarrow> tally \<Rightarrow> DetectionPattern \<Rightarrow> tally" where
  "note_hit s t p = (if hit (pattern p) s then record_match p t else t)"

definition language_list :: "string \<Rightarrow> DetectionPattern list" where
  \<comment> \<open>\<^verbatim>\<open>LANGUAGE_PATTERNS[language] || []\<close> where that is a list\<close>
  "language_list language = (case LANGUAGE_PATTERNS language of Own ps \<Rightarrow> ps | _ \<Rightarrow> [])"

definition todo_pattern :: DetectionPattern where
  "todo_pattern = AI_PATTERNS ! 4"

definition other_patterns :: "string \<Rightarrow> DetectionPattern list" where
  "other_patterns language = take 4 AI_PATTERNS @ drop 5 AI_PATTERNS @ language_list language"

definition same_heuristics :: "string \<Rightarrow> string \<Rightarrow> bool" where
  \<comment> \<open>the four conditions of the heuristics have the same outcome on both lines\<close>
  "same_heuristics s s' =
     ((120 < length s) = (120 < length s')
      \<and> (length s < 20 \<and> string_match re_punctuation s = None)
          = (length s' < 20 \<and> string_match re_punctuation s' = None)
      \<and> (string_match re_imperfect s = None \<and> 30 < length s)
          = (string_match re_imperfect s' = None \<and> 30 < length s')
      \<and> (string_match re_quirky s \<noteq> None) = (string_match re_quirky s' \<noteq> None))"

definition same_outcomes :: "string \<Rightarrow> string \<Rightarrow> string \<Rightarrow> bool" where
  \<comment> \<open>apart from the TODO pattern, every pattern and heuristic has the same outcome on both
      lines\<close>
  "same_outcomes language s s' =
     (list_all (\<lambda>p. hit (pattern p) s = hit (pattern p) s') (other_patterns language)
      \<and> same_heuristics s s')"

definition gap :: "nat \<Rightarrow> tally \<Rightarrow> tally \<Rightarrow> bool" where
  \<comment> \<open>the second tally has the same AI score and a human score that is larger by 0.5, up to
      the rounding of \<open>k\<close> additions\<close>
  "gap k t t' = (aiScore t' = aiScore t \<and> 0 \<le> humanScore t
     \<and> humanScore t + (1 / 2 - of_nat k / 2 ^ 48) \<le> humanScore t'
     \<and> humanScore t' \<le> 1 / 2 + of_nat k)"

definition leaning :: "tally \<Rightarrow> bool" where
  "leaning t = (1 / 2 \<le> humanScore t)"

definition grounded :: "tally \<Rightarrow> bool" where
  \<comment> \<open>an AI score that is not 0 is at least the smallest weight\<close>
  "grounded t = (aiScore t = 0 \<or> 1 / 16 \<le> aiScore t)"

abbreviation empty_tally :: tally where
  "empty_tally \<equiv> \<lparr>aiScore = 0, humanScore = 0, noted = []\<rparr>"

text \<open>The tallies and verdicts of the lines that the marker is added to below.\<close>

abbreviation marked_tally :: tally where
  "marked_tally \<equiv> \<lparr>aiScore = 0, humanScore = 1 / 2,
     noted = [''Contains TODO/FIXME comments suggesting human planning'']\<rparr>"

abbreviation plain_verdict :: LineAnalysis where
  "plain_verdict \<equiv> \<lparr>content = ''x; '', isAI = False, confidence = 1 / 2,
     reasons = [''No significant patterns detected - neutral classification'']\<rparr>"

abbreviation marked_verdict :: LineAnalysis where
  "marked_verdict \<equiv> \<lparr>content = ''x; TODO:'', isAI = False,
     confidence = 4278419646001971 / 4503599627370496,
     reasons = [''Contains TODO/FIXME comments suggesting human planning'']\<rparr>"

abbreviation tied_tally :: tally where
  "tied_tally \<equiv> \<lparr>aiScore = 5404319552844595 / 18014398509481984,
     humanScore = 5404319552844595 / 18014398509481984,
     noted = [''Contains repetitive assignment patterns'',
              ''Uses creative or placeholder naming typical of humans'']\<rparr>"

abbreviation tied_marked_tally :: tally where
  "tied_marked_tally \<equiv> \<lparr>aiScore = 5404319552844595 / 18014398509481984,
     humanScore = 3602879701896397 / 4503599627370496,
     noted = [''Contains repetitive assignment patterns'',
              ''Contains TODO/FIXME comments suggesting human planning'',
              ''Uses creative or placeholder naming typical of humans'']\<rparr>"

abbreviation tied_verdict :: LineAnalysis where
  "tied_verdict \<equiv> \<lparr>content = ''x = x; foo '', isAI = False, confidence = 1 / 2,
     reasons = [''Contains repetitive assignment patterns'',
                ''Uses creative or placeholder naming typical of humans'']\<rparr>"

abbreviation tied_marked_verdict :: LineAnalysis where
  "tied_marked_verdict \<equiv> \<lparr>content = ''x = x; foo TODO:'', isAI = False,
     confidence = 3275345183542179 / 4503599627370496,
     reasons = [''Contains repetitive assignment patterns'',
                ''Contains TODO/FIXME comments suggesting human planning'',
                ''Uses creative or placeholder naming typical of humans'']\<rparr>"

abbreviation foo_verdict :: LineAnalysis where
  "foo_verdict \<equiv> \<lparr>content = ''foo aaaaaaaaaaaaaaaaaaaaaaa'', isAI = False,
     confidence = 4278419646001971 / 4503599627370496,
     reasons = [''Uses creative or placeholder naming typical of humans'']\<rparr>"

abbreviation foo_marked_verdict :: LineAnalysis where
  "foo_marked_verdict \<equiv> \<lparr>content = ''foo aaaaaaaaaaaaaaaaaaaaaaa TODO:'', isAI = False,
     confidence = 8006399337547549 / 9007199254740992,
     reasons = [''Contains TODO/FIXME comments suggesting human planning'',
                ''Perfect syntax and structure'',
                ''Uses creative or placeholder naming typical of humans'']\<rparr>"

section \<open>Evaluating the character classes\<close>

text \<open>
  The classes are defined on code unit numbers. For evaluation they are restated on the bits of
  a character, least significant bit first.
\<close>

lemma code_unit_Char:
  "code_unit (Char b0 b1 b2 b3 b4 b5 b6 b7) =
     of_bool b0 + 2 * of_bool b1 + 4 * of_bool b2 + 8 * of_bool b3 + 16 * of_bool b4
     + 32 * of_bool b5 + 64 * of_bool b6 + 128 * of_bool b7"
  by (simp add: code_unit_def)

lemma is_digit_code [code]:
  "is_digit (Char b0 b1 b2 b3 b4 b5 b6 b7) =
     (\<not> b7 \<and> \<not> b6 \<and> b5 \<and> b4 \<and> (\<not> b3 \<or> (\<not> b2 \<and> \<not> b1)))"
  unfolding is_digit_def code_unit_Char
  by (cases b0; cases b1; cases b2; cases b3; cases b4; cases b5; cases b6; cases b7; simp)

lemma is_lower_code [code]:
  "is_lower (Char b0 b1 b2 b3 b4 b5 b6 b7) =
     (\<not> b7 \<and> b6 \<and> b5 \<and> (b0 \<or> b1 \<or> b2 \<or> b3 \<or> b4)
      \<and> \<not> (b4 \<and> b3 \<and> (b2 \<or> (b1 \<and> b0))))"
  unfolding is_lower_def code_unit_Char
  by (cases b0; cases b1; cases b2; cases b3; cases b4; cases b5; cases b6; cases b7; simp)

lemma is_upper_code [code]:
  "is_upper (Char b0 b1 b2 b3 b4 b5 b6 b7) =
     (\<not> b7 \<and> b6 \<and> \<not> b5 \<and> (b0 \<or> b1 \<or> b2 \<or> b3 \<or> b4)
      \<and> \<not> (b4 \<and> b3 \<and> (b2 \<or> (b1 \<and> b0))))"
  unfolding is_upper_def code_unit_Char
  by (cases b0; cases b1; cases b2; cases b3; cases b4; cases b5; cases b6; cases b7; simp)

lemma is_word_code [code]:
  "is_word (Char b0 b1 b2 b3 b4 b5 b6 b7) =
     (is_lower (Char b0 b1 b2 b3 b4 b5 b6 b7) \<or> is_upper (Char b0 b1 b2 b3 b4 b5 b6 b7)
      \<or> is_digit (Char b0 b1 b2 b3 b4 b5 b6 b7)
      \<or> (b0 \<and> b1 \<and> b2 \<and> b3 \<and> b4 \<and> \<not> b5 \<and> b6 \<and> \<not> b7))"
  unfolding is_word_def code_unit_Char
  by (cases b0; cases b1; cases b2; cases b3; cases b4; cases b5; cases b6; cases b7; simp)

lemma is_ws_code [code]:
  "is_ws (Char b0 b1 b2 b3 b4 b5 b6 b7) =
     ((\<not> b7 \<and> \<not> b6 \<and> \<not> b5 \<and> \<not> b4 \<and> b3 \<and> (\<not> b2 \<and> (b0 \<or> b1) \<or> b2 \<and> \<not> b1))
      \<or> (\<not> b0 \<and> \<not> b1 \<and> \<not> b2 \<and> \<not> b3 \<and> \<not> b4 \<and> b5 \<and> \<not> b6))"
  unfolding is_ws_def code_unit_Char
  by (cases b0; cases b1; cases b2; cases b3; cases b4; cases b5; cases b6; cases b7; simp)

lemma is_line_terminator_code [code]:
  "is_line_terminator (Char b0 b1 b2 b3 b4 b5 b6 b7) =
     (\<not> b7 \<and> \<not> b6 \<and> \<not> b5 \<and> \<not> b4 \<and> b3 \<and> (b0 \<noteq> b1) \<and> (b2 = b0))"
  unfolding is_line_terminator_def code_unit_Char
  by (cases b0; cases b1; cases b2; cases b3; cases b4; cases b5; cases b6; cases b7; simp)

lemma canonicalize_code [code]:
  "canonicalize (Char b0 b1 b2 b3 b4 b5 b6 b7) =
     (if is_lower (Char b0 b1 b2 b3 b4 b5 b6 b7) then Char b0 b1 b2 b3 b4 False b6 b7
      else Char b0 b1 b2 b3 b4 b5 b6 b7)"
  unfolding canonicalize_def is_lower_def code_unit_Char
  by (cases b0; cases b1; cases b2; cases b3; cases b4; cases b5; cases b6; cases b7;
      simp add: char_of_def bit_Suc_0_iff)


section \<open>Properties of rounding\<close>

text \<open>
  \<open>ilog2\<close> is the binary exponent, \<open>rnd\<close> is monotone on the numbers that are not negative,
  leaves every double unchanged, commutes with doubling, and has a relative error of at most
  \<open>2\<^sup>-\<^sup>5\<^sup>3\<close>.
\<close>

lemma powi2_pos: "0 < (2::real) powi k"
  by (simp add: power_int_def)

lemma powi2_mono: "a \<le> b \<Longrightarrow> (2::real) powi a \<le> 2 powi b"
  by (rule power_int_increasing) simp_all

lemma powi2_strict_mono: "a < b \<Longrightarrow> (2::real) powi a < 2 powi b"
  by (rule power_int_strict_increasing) simp_all

lemma powi2_Suc: "(2::real) powi (k + 1) = 2 * 2 powi k"
  by (simp add: power_int_add)

lemma powi2_neg_nat: "(2::real) powi (- int n) = 1 / 2 ^ n"
  by (simp add: power_int_minus inverse_eq_divide)

lemma bitlen_nat_bounds:
  assumes "1 \<le> k"
  obtains b where "bitlen k = int (Suc b)" "(2::real) ^ b \<le> of_int k" "of_int k + 1 \<le> (2::real) ^ Suc b"
proof -
  from assms have pos: "0 < bitlen k" by (simp add: bitlen_alt_def)
  define b where "b = nat (bitlen k - 1)"
  have eq: "bitlen k = int (Suc b)" using pos by (simp add: b_def)
  have nb: "nat (bitlen k) = Suc b" using pos by (simp add: b_def)
  from bitlen_bounds[of k] assms have "2 ^ nat (bitlen k - 1) \<le> k" "k < 2 ^ nat (bitlen k)"
    by simp_all
  then have "2 ^ b \<le> k" "k < 2 ^ Suc b" unfolding nb by (simp_all only: b_def)
  then have "2 ^ b \<le> k" "k + 1 \<le> 2 ^ Suc b" by simp_all
  then have "of_int (2 ^ b) \<le> (of_int k :: real)" "(of_int (k + 1) :: real) \<le> of_int (2 ^ Suc b)"
    unfolding of_int_le_iff by simp_all
  then have "(2::real) ^ b \<le> of_int k" "of_int k + 1 \<le> (2::real) ^ Suc b" by simp_all
  with eq show thesis by (rule that)
qed

lemma ilog2_bounds:
  assumes "0 < x"
  shows "2 powi (ilog2 x) \<le> x" and "x < 2 powi (ilog2 x + 1)"
proof -
  have "2 powi (ilog2 x) \<le> x \<and> x < 2 powi (ilog2 x + 1)"
  proof (cases "1 \<le> x")
    case True
    then have "1 \<le> \<lfloor>x\<rfloor>" by (simp add: le_floor_iff)
    then obtain b where b: "bitlen \<lfloor>x\<rfloor> = int (Suc b)" "(2::real) ^ b \<le> of_int \<lfloor>x\<rfloor>"
      "of_int \<lfloor>x\<rfloor> + 1 \<le> (2::real) ^ Suc b" by (rule bitlen_nat_bounds)
    have il: "ilog2 x = int b" using True b(1) by (simp add: ilog2_def)
    have "of_int \<lfloor>x\<rfloor> \<le> x" "x < of_int \<lfloor>x\<rfloor> + 1" by simp_all
    with b(2,3) have "2 ^ b \<le> x" "x < 2 ^ Suc b" by linarith+
    moreover have "int b + 1 = int (Suc b)" by simp
    ultimately show ?thesis unfolding il by (simp only: power_int_of_nat)
  next
    case False
    define y where "y = 1 / x"
    have y: "1 < y" using False assms by (simp add: y_def)
    then have "1 \<le> \<lceil>y\<rceil> - 1" by (simp add: less_ceiling_iff)
    then obtain b where b: "bitlen (\<lceil>y\<rceil> - 1) = int (Suc b)" "(2::real) ^ b \<le> of_int (\<lceil>y\<rceil> - 1)"
      "of_int (\<lceil>y\<rceil> - 1) + 1 \<le> (2::real) ^ Suc b" by (rule bitlen_nat_bounds)
    have il: "ilog2 x = - int (Suc b)" using False b(1) by (simp add: ilog2_def y_def)
    have "of_int (\<lceil>y\<rceil> - 1) < y" "y \<le> of_int (\<lceil>y\<rceil> - 1) + 1"
      using ceiling_correct[of y] by simp_all
    with b(2,3) have "2 ^ b < y" "y \<le> 2 ^ Suc b" by linarith+
    then have "2 ^ b * x < 1" "1 \<le> 2 ^ Suc b * x"
      using assms by (simp_all add: y_def field_simps)
    then have "1 / 2 ^ Suc b \<le> x" "x < 1 / 2 ^ b"
      by (simp_all add: field_simps)
    moreover have "- int (Suc b) + 1 = - int b" by simp
    ultimately show ?thesis unfolding il by (simp only: powi2_neg_nat)
  qed
  then show "2 powi (ilog2 x) \<le> x" and "x < 2 powi (ilog2 x + 1)" by simp_all
qed

lemma ilog2_unique:
  assumes "2 powi k \<le> x" "x < 2 powi (k + 1)"
  shows "ilog2 x = k"
proof -
  have x: "0 < x" using assms(1) powi2_pos[of k] by linarith
  note b = ilog2_bounds[OF x]
  have "\<not> ilog2 x < k"
  proof
    assume "ilog2 x < k"
    then have "(2::real) powi (ilog2 x + 1) \<le> 2 powi k" by (intro powi2_mono) simp
    with b(2) assms(1) show False by linarith
  qed
  moreover have "\<not> k < ilog2 x"
  proof
    assume "k < ilog2 x"
    then have "(2::real) powi (k + 1) \<le> 2 powi (ilog2 x)" by (intro powi2_mono) simp
    with b(1) assms(2) show False by linarith
  qed
  ultimately show ?thesis by linarith
qed

lemma ilog2_mono:
  assumes "0 < x" "x \<le> y"
  shows "ilog2 x \<le> ilog2 y"
proof (rule ccontr)
  assume "\<not> ilog2 x \<le> ilog2 y"
  then have "(2::real) powi (ilog2 y + 1) \<le> 2 powi (ilog2 x)" by (intro powi2_mono) simp
  moreover have "0 < y" using assms by simp
  ultimately show False using ilog2_bounds(1)[OF assms(1)] ilog2_bounds(2)[of y] assms(2) by linarith
qed

lemma rne_of_int [simp]: "rne (of_int k) = k"
  by (simp add: rne_def)

lemma rne_eqI:
  assumes "\<bar>y - of_int m\<bar> < 1 / 2"
  shows "rne y = m"
proof (cases "of_int m \<le> y")
  case True
  then have "\<lfloor>y\<rfloor> = m" using assms by (intro floor_unique) (simp_all add: abs_less_iff)
  then show ?thesis using assms True by (simp add: rne_def abs_less_iff)
next
  case False
  then have "\<lfloor>y\<rfloor> = m - 1" using assms by (intro floor_unique) (simp_all add: abs_less_iff)
  then show ?thesis using assms False by (simp add: rne_def abs_less_iff)
qed

lemma rne_tieI:
  assumes "y = of_int m + 1 / 2"
  shows "rne y = (if even m then m else m + 1)"
proof -
  have "\<lfloor>y\<rfloor> = m" using assms by (intro floor_unique) simp_all
  then show ?thesis using assms by (simp add: rne_def)
qed

lemma rne_error: "\<bar>of_int (rne y) - y\<bar> \<le> 1 / 2"
proof -
  have "of_int \<lfloor>y\<rfloor> \<le> y" "y < of_int \<lfloor>y\<rfloor> + 1" by simp_all
  then show ?thesis unfolding rne_def by (simp add: abs_le_iff)
qed

lemma rne_floor_le: "\<lfloor>y\<rfloor> \<le> rne y" and rne_le_floor: "rne y \<le> \<lfloor>y\<rfloor> + 1"
  unfolding rne_def by auto

lemma rne_mono:
  assumes "y \<le> z"
  shows "rne y \<le> rne z"
proof (cases "\<lfloor>y\<rfloor> = \<lfloor>z\<rfloor>")
  case True
  then show ?thesis using assms unfolding rne_def by (auto split: if_splits)
next
  case False
  then have "\<lfloor>y\<rfloor> + 1 \<le> \<lfloor>z\<rfloor>" using floor_mono[OF assms] by linarith
  then show ?thesis using rne_le_floor[of y] rne_floor_le[of z] by linarith
qed


lemma rnd_0 [simp]: "rnd 0 = 0"
  by (simp add: rnd_def)

lemma rnd_pos_eq:
  "0 < x \<Longrightarrow> rnd x = of_int (rne (x / 2 powi (ilog2 x - 52))) * 2 powi (ilog2 x - 52)"
  by (simp add: rnd_def)

lemma rnd_minus: "rnd (- x) = - rnd x"
  by (simp add: rnd_def sgn_minus)

lemma mantissa_bounds:
  assumes "0 < x"
  shows "2 ^ 52 \<le> x / 2 powi (ilog2 x - 52)" and "x / 2 powi (ilog2 x - 52) < 2 ^ 53"
proof -
  define r where "r = x / 2 powi (ilog2 x)"
  have eq: "x / 2 powi (ilog2 x - 52) = r * 2 ^ 52"
    by (simp add: power_int_diff r_def)
  have p: "0 < (2::real) powi (ilog2 x)" by (rule powi2_pos)
  from ilog2_bounds[OF assms] have "2 powi (ilog2 x) \<le> x" "x < 2 * 2 powi (ilog2 x)"
    by (simp_all add: powi2_Suc)
  then have "1 \<le> r" "r < 2"
    using p by (simp_all add: field_simps r_def)
  then show "2 ^ 52 \<le> x / 2 powi (ilog2 x - 52)" and "x / 2 powi (ilog2 x - 52) < 2 ^ 53"
    unfolding eq by simp_all
qed

lemma rne_mantissa_bounds:
  assumes "0 < x"
  shows "2 ^ 52 \<le> rne (x / 2 powi (ilog2 x - 52))" and "rne (x / 2 powi (ilog2 x - 52)) \<le> 2 ^ 53"
proof -
  have "rne (of_int (2 ^ 52)) \<le> rne (x / 2 powi (ilog2 x - 52))"
    using mantissa_bounds(1)[OF assms] by (intro rne_mono) simp
  then show "2 ^ 52 \<le> rne (x / 2 powi (ilog2 x - 52))" by (simp only: rne_of_int)
  have "rne (x / 2 powi (ilog2 x - 52)) \<le> rne (of_int (2 ^ 53))"
    using mantissa_bounds(2)[OF assms] by (intro rne_mono) simp
  then show "rne (x / 2 powi (ilog2 x - 52)) \<le> 2 ^ 53" by (simp only: rne_of_int)
qed

lemma rnd_bounds:
  assumes "0 < x"
  shows "2 powi (ilog2 x) \<le> rnd x" and "rnd x \<le> 2 powi (ilog2 x + 1)"
proof -
  define q where "q = rne (x / 2 powi (ilog2 x - 52))"
  have r: "rnd x = of_int q * 2 powi (ilog2 x - 52)" by (simp add: rnd_pos_eq assms q_def)
  have s: "(2::real) powi (ilog2 x - 52) = 2 powi (ilog2 x) / 2 ^ 52"
    by (simp add: power_int_diff)
  from rne_mantissa_bounds[OF assms] have "2 ^ 52 \<le> q" "q \<le> 2 ^ 53" by (simp_all add: q_def)
  then have "of_int (2 ^ 52) \<le> (of_int q :: real)" "(of_int q :: real) \<le> of_int (2 ^ 53)"
    unfolding of_int_le_iff by simp_all
  then have q: "2 ^ 52 \<le> (of_int q :: real)" "(of_int q :: real) \<le> 2 ^ 53" by simp_all
  have p: "0 < (2::real) powi (ilog2 x)" by (rule powi2_pos)
  have "1 * (2::real) powi (ilog2 x) \<le> (of_int q / 2 ^ 52) * 2 powi (ilog2 x)"
    using q(1) p by (intro mult_right_mono) simp_all
  then show "2 powi (ilog2 x) \<le> rnd x" unfolding r s by simp
  have "(of_int q / 2 ^ 52) * (2::real) powi (ilog2 x) \<le> 2 * 2 powi (ilog2 x)"
    using q(2) p by (intro mult_right_mono) simp_all
  then show "rnd x \<le> 2 powi (ilog2 x + 1)" unfolding r s powi2_Suc by simp
qed

lemma rnd_pos: "0 < x \<Longrightarrow> 0 < rnd x"
  using rnd_bounds(1)[of x] powi2_pos[of "ilog2 x"] by linarith

lemma rnd_nonneg: "0 \<le> x \<Longrightarrow> 0 \<le> rnd x"
  using rnd_pos[of x] by (cases "x = 0") simp_all

lemma rnd_mono:
  assumes "0 \<le> x" "x \<le> y"
  shows "rnd x \<le> rnd y"
proof (cases "x = 0")
  case True
  then show ?thesis using assms rnd_nonneg[of y] by simp
next
  case False
  then have x: "0 < x" and y: "0 < y" using assms by simp_all
  show ?thesis
  proof (cases "ilog2 x = ilog2 y")
    case True
    have p: "0 < (2::real) powi (ilog2 y - 52)" by (rule powi2_pos)
    have "x / 2 powi (ilog2 y - 52) \<le> y / 2 powi (ilog2 y - 52)"
      using assms(2) p by (simp add: divide_right_mono)
    then have "rne (x / 2 powi (ilog2 y - 52)) \<le> rne (y / 2 powi (ilog2 y - 52))"
      by (rule rne_mono)
    then have "(of_int (rne (x / 2 powi (ilog2 y - 52))) :: real)
        \<le> of_int (rne (y / 2 powi (ilog2 y - 52)))" by simp
    then show ?thesis using p by (simp add: rnd_pos_eq x y True mult_right_mono)
  next
    case False
    then have "ilog2 x + 1 \<le> ilog2 y" using ilog2_mono[OF x assms(2)] by simp
    then have "(2::real) powi (ilog2 x + 1) \<le> 2 powi (ilog2 y)" by (rule powi2_mono)
    then show ?thesis using rnd_bounds(2)[OF x] rnd_bounds(1)[OF y] by linarith
  qed
qed

lemma rnd_eqI:
  assumes "2 powi (e + 52) \<le> x" "x < 2 powi (e + 53)" "\<bar>x / 2 powi e - of_int m\<bar> < 1 / 2"
  shows "rnd x = of_int m * 2 powi e"
proof -
  have x: "0 < x" using assms(1) powi2_pos[of "e + 52"] by linarith
  have "e + 53 = (e + 52) + 1" by simp
  then have "x < 2 powi ((e + 52) + 1)" using assms(2) by (simp only:)
  with assms(1) have "ilog2 x = e + 52" by (rule ilog2_unique)
  then show ?thesis using rne_eqI[OF assms(3)] by (simp add: rnd_pos_eq x)
qed

lemma rnd_tieI:
  assumes "2 powi (e + 52) \<le> x" "x < 2 powi (e + 53)" "x / 2 powi e = of_int f + 1 / 2"
  shows "rnd x = of_int (if even f then f else f + 1) * 2 powi e"
proof -
  have x: "0 < x" using assms(1) powi2_pos[of "e + 52"] by linarith
  have "e + 53 = (e + 52) + 1" by simp
  then have "x < 2 powi ((e + 52) + 1)" using assms(2) by (simp only:)
  with assms(1) have "ilog2 x = e + 52" by (rule ilog2_unique)
  then show ?thesis using rne_tieI[OF assms(3)] by (simp add: rnd_pos_eq x)
qed

lemma rnd_exact:
  assumes "0 < m" "m < 2 ^ 53"
  shows "rnd (of_int m * 2 powi e) = of_int m * 2 powi e"
proof -
  define x :: real where "x = of_int m * 2 powi e"
  have x: "0 < x" using assms(1) powi2_pos[of e] by (simp add: x_def)
  have "of_int m < (of_int (2 ^ 53) :: real)" using assms(2) unfolding of_int_less_iff .
  then have "x < 2 ^ 53 * 2 powi e" using powi2_pos[of e] by (simp add: x_def)
  also have "\<dots> = 2 powi (e + 53)" by (simp add: power_int_add)
  finally have "2 powi (ilog2 x) < (2::real) powi (e + 53)"
    using ilog2_bounds(1)[OF x] by linarith
  then have "ilog2 x < e + 53" using powi2_mono[of "e + 53" "ilog2 x"] by (cases "ilog2 x < e + 53") simp_all
  define d where "d = nat (e - (ilog2 x - 52))"
  have d: "e - (ilog2 x - 52) = int d" using \<open>ilog2 x < e + 53\<close> by (simp add: d_def)
  have "x / 2 powi (ilog2 x - 52) = of_int m * 2 powi (e - (ilog2 x - 52))"
    by (simp add: x_def power_int_diff)
  also have "\<dots> = of_int (m * 2 ^ d)" unfolding d by simp
  finally have "rne (x / 2 powi (ilog2 x - 52)) = m * 2 ^ d" by (simp only: rne_of_int)
  then have "rnd x = of_int (m * 2 ^ d) * 2 powi (ilog2 x - 52)" by (simp add: rnd_pos_eq x)
  also have "\<dots> = of_int m * (2 powi (e - (ilog2 x - 52)) * 2 powi (ilog2 x - 52))"
    unfolding d by simp
  also have "2 powi (e - (ilog2 x - 52)) * 2 powi (ilog2 x - 52) = (2::real) powi e"
    by (simp add: power_int_add[symmetric])
  finally show ?thesis by (simp add: x_def)
qed


lemma rnd_pow2: "rnd (2 powi e) = 2 powi e"
  using rnd_exact[of 1 e] by simp

lemma rnd_idem [simp]: "rnd (rnd x) = rnd x"
proof -
  have pos: "rnd (rnd x) = rnd x" if x: "0 < x" for x
  proof -
    define q where "q = rne (x / 2 powi (ilog2 x - 52))"
    have r: "rnd x = of_int q * 2 powi (ilog2 x - 52)" by (simp add: rnd_pos_eq x q_def)
    from rne_mantissa_bounds[OF x] have q: "2 ^ 52 \<le> q" "q \<le> 2 ^ 53" by (simp_all add: q_def)
    show ?thesis
    proof (cases "q = 2 ^ 53")
      case True
      have "rnd x = 2 ^ 53 * 2 powi (ilog2 x - 52)" unfolding r True by simp
      also have "\<dots> = 2 powi (ilog2 x + 1)" by (simp add: power_int_diff power_int_add)
      finally show ?thesis by (simp only: rnd_pow2)
    next
      case False
      then have "0 < q" "q < 2 ^ 53" using q by simp_all
      then show ?thesis unfolding r by (rule rnd_exact)
    qed
  qed
  consider "0 < x" | "x = 0" | "0 < - x" by linarith
  then show ?thesis
  proof cases
    case 1
    then show ?thesis by (rule pos)
  next
    case 2
    then show ?thesis by simp
  next
    case 3
    from pos[OF 3] show ?thesis by (simp add: rnd_minus)
  qed
qed

lemma rnd_twice: "rnd (2 * x) = 2 * rnd x"
proof -
  have pos: "rnd (2 * x) = 2 * rnd x " if x: "0 < x" for x
  proof -
    from ilog2_bounds[OF x] have "2 powi (ilog2 x + 1) \<le> 2 * x" "2 * x < 2 powi (ilog2 x + 1 + 1)"
      unfolding powi2_Suc by simp_all
    then have il: "ilog2 (2 * x) = ilog2 x + 1" by (rule ilog2_unique)
    have s: "(2::real) powi (ilog2 x + 1 - 52) = 2 * 2 powi (ilog2 x - 52)"
      by (simp add: power_int_diff power_int_add)
    have x2: "0 < 2 * x" using x by simp
    show ?thesis unfolding rnd_pos_eq[OF x2] rnd_pos_eq[OF x] il s by simp
  qed
  consider "0 < x" | "x = 0" | "0 < - x" by linarith
  then show ?thesis
  proof cases
    case 1
    then show ?thesis by (rule pos)
  next
    case 2
    then show ?thesis by simp
  next
    case 3
    from pos[OF 3] show ?thesis by (simp add: rnd_minus)
  qed
qed

lemma rnd_error_pos:
  assumes "0 < x"
  shows "\<bar>rnd x - x\<bar> \<le> x / 2 ^ 53"
proof -
  define s :: real where "s = 2 powi (ilog2 x - 52)"
  define y where "y = x / s"
  have s: "0 < s" unfolding s_def by (rule powi2_pos)
  have xs: "x = y * s" using s by (simp add: y_def)
  have "rnd x = of_int (rne y) * s" by (simp add: rnd_pos_eq assms s_def y_def)
  then have "rnd x - x = (of_int (rne y) - y) * s" by (simp add: xs left_diff_distrib)
  then have "\<bar>rnd x - x\<bar> = \<bar>of_int (rne y) - y\<bar> * s"
    using s by (simp add: abs_mult)
  also have "\<dots> \<le> 1 / 2 * s" using rne_error[of y] s by (intro mult_right_mono) simp_all
  also have "\<dots> = 2 powi (ilog2 x) / 2 ^ 53" by (simp add: s_def power_int_diff)
  also have "\<dots> \<le> x / 2 ^ 53" using ilog2_bounds(1)[OF assms] by (simp add: divide_right_mono)
  finally show ?thesis .
qed

lemma rnd_error: "\<bar>rnd x - x\<bar> \<le> \<bar>x\<bar> / 2 ^ 53"
proof -
  consider "0 < x" | "x = 0" | "0 < - x" by linarith
  then show ?thesis
  proof cases
    case 1
    then show ?thesis using rnd_error_pos[of x] by simp
  next
    case 2
    then show ?thesis by simp
  next
    case 3
    from rnd_error_pos[OF 3] have "\<bar>- (rnd x - x)\<bar> \<le> - x / 2 ^ 53" by (simp add: rnd_minus)
    then show ?thesis using 3 by (simp only: abs_minus_cancel)
  qed
qed

lemma rnd_of_nat:
  assumes "n \<le> 2 ^ 53"
  shows "rnd (of_nat n) = of_nat n"
proof (cases "n = 0 \<or> n = 2 ^ 53")
  case True
  then show ?thesis using rnd_pow2[of 53] by auto
next
  case False
  then have "0 < int n" "int n < 2 ^ 53" using assms by simp_all
  from rnd_exact[OF this, of 0] show ?thesis by simp
qed

lemma rnd_half_nat:
  assumes "n \<le> 2 ^ 53"
  shows "rnd (of_nat n / 2) = of_nat n / 2"
proof -
  have "rnd (2 * (of_nat n / 2)) = 2 * rnd (of_nat n / 2)" by (rule rnd_twice)
  then show ?thesis using rnd_of_nat[OF assms] by simp
qed

lemma rnd_1 [simp]: "rnd 1 = 1"
  using rnd_pow2[of 0] by simp

lemma rnd_half [simp]: "rnd (1 / 2) = 1 / 2"
  using rnd_pow2[of "-1"] by (simp add: power_int_minus inverse_eq_divide)

lemma rnd_100 [simp]: "rnd 100 = 100"
  using rnd_of_nat[of 100] by simp


text \<open>The doubles that the literals \<^verbatim>\<open>0.1\<close> and \<^verbatim>\<open>0.95\<close> denote.\<close>

lemma rnd_1_10: "rnd (1 / 10) = 3602879701896397 / 36028797018963968"
  using rnd_eqI[of "-56" "1 / 10" 7205759403792794] by (simp add: power_int_minus)

lemma rnd_95_100: "rnd (95 / 100) = 4278419646001971 / 4503599627370496"
  using rnd_eqI[of "-53" "95 / 100" 8556839292003942] by (simp add: power_int_minus)

lemma rnd_19_20: "rnd (19 / 20) = 4278419646001971 / 4503599627370496"
  using rnd_95_100 by simp

section \<open>Lines and verdicts\<close>

lemma split_nl_not_Nil [simp]: "split_nl s \<noteq> []"
  by (induction s) (auto split: list.splits)

lemma length_split_nl: "length (split_nl s) = count_list s (CHR 0x0A) + 1"
proof (induction s)
  case Nil
  show ?case by simp
next
  case (Cons c cs)
  obtain l ls where r: "split_nl cs = l # ls" by (cases "split_nl cs") simp_all
  show ?case using Cons by (simp add: r)
qed

lemma join_split_nl: "join_nl (split_nl s) = s"
proof (induction s)
  case Nil
  show ?case by simp
next
  case (Cons c cs)
  obtain l ls where r: "split_nl cs = l # ls" by (cases "split_nl cs") simp_all
  show ?case using Cons by (cases ls) (simp_all add: r)
qed

lemma split_nl_no_newline: "l \<in> set (split_nl s) \<Longrightarrow> CHR 0x0A \<notin> set l"
proof (induction s arbitrary: l)
  case Nil
  then show ?case by simp
next
  case (Cons c cs)
  obtain k ks where r: "split_nl cs = k # ks" by (cases "split_nl cs") simp_all
  show ?case
  proof (cases "c = CHR 0x0A")
    case True
    then show ?thesis using Cons by auto
  next
    case False
    then have "l = c # k \<or> l \<in> set ks" using Cons.prems by (simp add: r)
    then show ?thesis using Cons.IH[of k] Cons.IH[of l] False by (auto simp: r)
  qed
qed

lemma analyzeLine_content:
  "analyzeLine line n language st = (Inr v, st') \<Longrightarrow> content v = line"
  by (auto simp: analyzeLine_def final_scores_def Let_def split: if_splits prod.splits sum.splits)

lemma adjust_content [simp]: "content (adjust s v) = content v"
  by (simp add: adjust_def)

lemma analyze_lines_content:
  "analyze_lines s language i ls st = (Inr vs, st') \<Longrightarrow> map content vs = ls"
proof (induction ls arbitrary: i st vs st')
  case Nil
  then show ?case by simp
next
  case (Cons l ls)
  then show ?case
    by (auto split: prod.splits sum.splits dest: analyzeLine_content)
qed

lemma analyzeCode_lines:
  assumes "fst (analyzeCode code language st) = Inr r"
  shows "map content (lineAnalysis r) = split_nl code"
proof -
  from assms obtain vs st' where
    "analyze_lines (analyzeCodeStructure code) language 0 (split_nl code) st = (Inr vs, st')"
    and r: "r = statistics vs"
    by (auto simp: analyzeCode_def split: prod.splits sum.splits)
  then have "map content vs = split_nl code" by (auto dest: analyze_lines_content)
  then show ?thesis by (simp add: r statistics_def Let_def)
qed

lemma final_scores_confidence:
  "rnd (1 / 10) \<le> confidence (final_scores line t)"
  "confidence (final_scores line t) \<le> rnd (95 / 100)"
  by (simp_all add: final_scores_def Let_def rnd_1_10 rnd_19_20)

lemma final_scores_content [simp]: "content (final_scores line t) = line"
  by (simp add: final_scores_def Let_def)

lemma analyzeLine_settled:
  assumes "analyzeLine line n language st = (Inr v, st')"
  shows "settled v"
proof (cases "trim line = []")
  case True
  then show ?thesis using assms by (auto simp: analyzeLine_def settled_def)
next
  case False
  then obtain t where "v = final_scores line t"
    using assms by (auto simp: analyzeLine_def split: prod.splits sum.splits)
  then show ?thesis using False final_scores_confidence[of line t] by (simp add: settled_def)
qed

lemma adjust_settled:
  assumes "settled v"
  shows "settled (adjust s v)"
proof (cases "1 / 2 < s \<and> isAI v")
  case False
  then show ?thesis using assms by (auto simp: adjust_def)
next
  case True
  then have nb: "trim (content v) \<noteq> []" using assms by (auto simp: settled_def)
  then have c: "rnd (1 / 10) \<le> confidence v" using assms by (simp add: settled_def)
  have "0 \<le> rnd (1 / 10)" by (simp add: rnd_1_10)
  then have "rnd (rnd (1 / 10)) \<le> rnd (confidence v + rnd (1 / 10))"
    using c by (intro rnd_mono) simp_all
  then have "rnd (1 / 10) \<le> fadd (confidence v) (rnd (1 / 10))" by (simp add: fadd_def)
  moreover have "rnd (1 / 10) \<le> rnd (95 / 100)" by (simp add: rnd_1_10 rnd_19_20)
  ultimately show ?thesis using True nb by (simp add: adjust_def settled_def)
qed

lemma analyze_lines_settled:
  "analyze_lines s language i ls st = (Inr vs, st') \<Longrightarrow> v \<in> set vs \<Longrightarrow> settled v"
proof (induction ls arbitrary: i st vs st')
  case Nil
  then show ?case by simp
next
  case (Cons l ls)
  from Cons.prems(1) obtain a st1 vs' where
    a: "analyzeLine l (i + 1) language st = (Inr a, st1)"
    and r: "analyze_lines s language (Suc i) ls st1 = (Inr vs', st')"
    and vs: "vs = adjust s a # vs'"
    by (auto split: prod.splits sum.splits)
  from Cons.prems(2) vs have "v = adjust s a \<or> v \<in> set vs'" by simp
  then show ?case
  proof
    assume "v = adjust s a"
    then show ?thesis using analyzeLine_settled[OF a] by (simp add: adjust_settled)
  next
    assume "v \<in> set vs'"
    with r show ?thesis by (rule Cons.IH)
  qed
qed

lemma analyzeCode_cases:
  assumes "fst (analyzeCode code language st) = Inr r"
  obtains vs st' where
    "analyze_lines (analyzeCodeStructure code) language 0 (split_nl code) st = (Inr vs, st')"
    "r = statistics vs"
  using assms by (auto simp: analyzeCode_def split: prod.splits sum.splits)

lemma lineAnalysis_statistics [simp]: "lineAnalysis (statistics vs) = vs"
  by (simp add: statistics_def Let_def)


section \<open>Scores and means\<close>

lemma add_ai_sound: "sound t \<Longrightarrow> 0 \<le> w \<Longrightarrow> sound (add_ai w why t)"
  by (simp add: sound_def add_ai_def fadd_def rnd_nonneg)

lemma add_human_sound: "sound t \<Longrightarrow> 0 \<le> w \<Longrightarrow> sound (add_human w why t)"
  by (simp add: sound_def add_human_def fadd_def rnd_nonneg)

lemma record_match_sound: "sound t \<Longrightarrow> 0 \<le> weight p \<Longrightarrow> sound (record_match p t)"
  by (simp add: record_match_def add_ai_sound add_human_sound)

lemma for_patterns_sound:
  "\<forall>p \<in> set ps. 0 \<le> weight p \<Longrightarrow> sound (fst a) \<Longrightarrow> sound (fst (for_patterns ref i ps s a))"
proof (induction ps arbitrary: i a)
  case Nil
  then show ?case by simp
next
  case (Cons p ps)
  show ?case
    using Cons.prems by (auto split: prod.splits intro!: Cons.IH record_match_sound)
qed

lemma AI_PATTERNS_weights: "\<forall>p \<in> set AI_PATTERNS. 0 \<le> weight p"
  by (simp add: AI_PATTERNS_def rnd_nonneg)

lemma LANGUAGE_PATTERNS_weights:
  "LANGUAGE_PATTERNS language = Own ps \<Longrightarrow> \<forall>p \<in> set ps. 0 \<le> weight p"
  by (auto simp: LANGUAGE_PATTERNS_def javascript_patterns_def python_patterns_def
      typescript_patterns_def rnd_nonneg split: if_splits)

lemma heuristics_sound: "sound t \<Longrightarrow> sound (heuristics s t)"
  by (simp add: heuristics_def Let_def add_ai_sound add_human_sound rnd_nonneg)

lemma line_tally_sound:
  assumes "line_tally s language st = (Inr t, st')"
  shows "sound t"
proof -
  define a where "a = for_patterns General 0 AI_PATTERNS s (\<lparr>aiScore = 0, humanScore = 0, noted = []\<rparr>, st)"
  have a: "sound (fst a)" unfolding a_def
    by (rule for_patterns_sound[OF AI_PATTERNS_weights]) (simp add: sound_def)
  show ?thesis
  proof (cases "LANGUAGE_PATTERNS language")
    case (Own ps)
    have "sound (fst (for_patterns (Specific language) 0 ps s a))"
      using LANGUAGE_PATTERNS_weights[OF Own] a by (rule for_patterns_sound)
    then show ?thesis using assms Own
      by (auto simp: line_tally_def a_def[symmetric] heuristics_sound split: prod.splits)
  next
    case Inherited
    then show ?thesis using assms by (simp add: line_tally_def split: prod.splits)
  next
    case Undefined
    then show ?thesis using assms a
      by (auto simp: line_tally_def a_def[symmetric] heuristics_sound split: prod.splits)
  qed
qed

lemma quotient_half:
  assumes "0 \<le> a" "0 \<le> h" "rnd a = a" "rnd h = h" "0 < fadd a h"
  shows "1 / 2 \<le> fdiv (max a h) (fadd a h)"
proof -
  define m where "m = max a h"
  have m: "0 \<le> m" "rnd m = m" "a + h \<le> 2 * m" using assms by (auto simp: m_def max_def)
  have "0 \<le> a + h" using assms by simp
  then have "rnd (a + h) \<le> rnd (2 * m)" using m(3) by (rule rnd_mono)
  then have le: "fadd a h \<le> 2 * m" by (simp add: fadd_def rnd_twice m(2))
  then have "1 / 2 \<le> m / fadd a h" using assms(5) by (simp add: field_simps)
  then have "rnd (1 / 2) \<le> rnd (m / fadd a h)" by (intro rnd_mono) simp_all
  then show ?thesis by (simp add: fdiv_def m_def)
qed

lemma final_scores_confident:
  assumes "sound t"
  shows "confident (final_scores line t)"
proof -
  have h: "(1::real) / 2 \<le> rnd (95 / 100)" by (simp add: rnd_19_20)
  have "1 / 2 \<le> (if 0 < fadd (aiScore t) (humanScore t)
      then fdiv (max (aiScore t) (humanScore t)) (fadd (aiScore t) (humanScore t)) else 1 / 2)"
    using assms quotient_half[of "aiScore t" "humanScore t"] by (simp add: sound_def)
  then show ?thesis using h final_scores_confidence(2)[of line t]
    by (simp add: confident_def final_scores_def Let_def)
qed

lemma analyzeLine_confident:
  assumes "analyzeLine line n language st = (Inr v, st')"
  shows "confident v"
proof (cases "trim line = []")
  case True
  then show ?thesis using assms by (auto simp: analyzeLine_def confident_def rnd_19_20)
next
  case False
  then obtain t where "line_tally (trim line) language st = (Inr t, st')" "v = final_scores line t"
    using assms by (auto simp: analyzeLine_def split: prod.splits sum.splits)
  then show ?thesis using line_tally_sound final_scores_confident by blast
qed

lemma adjust_confident:
  assumes "confident v"
  shows "confident (adjust s v)"
proof -
  have "0 \<le> rnd (1 / 10)" by (simp add: rnd_1_10)
  then have "rnd (1 / 2) \<le> rnd (confidence v + rnd (1 / 10))"
    using assms by (intro rnd_mono) (simp_all add: confident_def)
  then have "1 / 2 \<le> fadd (confidence v) (rnd (1 / 10))" by (simp add: fadd_def)
  moreover have "(1::real) / 2 \<le> rnd (95 / 100)" by (simp add: rnd_19_20)
  ultimately show ?thesis using assms by (auto simp: adjust_def confident_def min_def)
qed

lemma analyze_lines_confident:
  "analyze_lines s language i ls st = (Inr vs, st') \<Longrightarrow> v \<in> set vs \<Longrightarrow> confident v"
proof (induction ls arbitrary: i st vs st')
  case Nil
  then show ?case by simp
next
  case (Cons l ls)
  from Cons.prems(1) obtain a st1 vs' where
    a: "analyzeLine l (i + 1) language st = (Inr a, st1)"
    and r: "analyze_lines s language (Suc i) ls st1 = (Inr vs', st')"
    and vs: "vs = adjust s a # vs'"
    by (auto split: prod.splits sum.splits)
  from Cons.prems(2) vs have "v = adjust s a \<or> v \<in> set vs'" by simp
  then show ?case
  proof
    assume "v = adjust s a"
    then show ?thesis using analyzeLine_confident[OF a] by (simp add: adjust_confident)
  next
    assume "v \<in> set vs'"
    with r show ?thesis by (rule Cons.IH)
  qed
qed

lemma rnd_between:
  assumes "0 \<le> x"
  shows "x * (1 - 1 / 2 ^ 53) \<le> rnd x" and "rnd x \<le> x * (1 + 1 / 2 ^ 53)"
proof -
  define d where "d = x / 2 ^ 53"
  have "\<bar>rnd x - x\<bar> \<le> d" using rnd_error[of x] assms by (simp add: d_def)
  then have e: "rnd x - x \<le> d" "x - rnd x \<le> d" by linarith+
  have "x * (1 - 1 / 2 ^ 53) = x - d" "x * (1 + 1 / 2 ^ 53) = x + d"
    by (simp_all add: d_def algebra_simps)
  then show "x * (1 - 1 / 2 ^ 53) \<le> rnd x" and "rnd x \<le> x * (1 + 1 / 2 ^ 53)"
    using e by linarith+
qed

lemma sum_lower:
  assumes "\<forall>v \<in> set vs. 1 / 2 \<le> confidence v" "of_nat k / 2 \<le> acc" "k + length vs \<le> 2 ^ 53"
  shows "of_nat (k + length vs) / 2 \<le> foldl (\<lambda>sum line. fadd sum (confidence line)) acc vs"
  using assms
proof (induction vs arbitrary: k acc)
  case Nil
  then show ?case by simp
next
  case (Cons v vs)
  have "Suc k \<le> 2 ^ 53" using Cons.prems(3) by simp
  then have e: "rnd (of_nat (Suc k) / 2) = of_nat (Suc k) / 2" by (rule rnd_half_nat)
  have "of_nat (Suc k) / 2 \<le> acc + confidence v" using Cons.prems(1,2) by (simp add: field_simps)
  then have "rnd (of_nat (Suc k) / 2) \<le> rnd (acc + confidence v)" by (intro rnd_mono) simp_all
  then have a: "of_nat (Suc k) / 2 \<le> fadd acc (confidence v)" unfolding e by (simp add: fadd_def)
  have "\<forall>v \<in> set vs. 1 / 2 \<le> confidence v" using Cons.prems(1) by simp
  moreover note a
  moreover have "Suc k + length vs \<le> 2 ^ 53" using Cons.prems(3) by simp
  ultimately have "of_nat (Suc k + length vs) / 2
      \<le> foldl (\<lambda>sum line. fadd sum (confidence line)) (fadd acc (confidence v)) vs"
    by (rule Cons.IH)
  then show ?case by simp
qed

lemma sum_upper:
  assumes "\<forall>v \<in> set vs. 0 \<le> confidence v \<and> confidence v \<le> c" "0 \<le> c" "0 \<le> acc"
    "acc \<le> of_nat k * c * (1 + 1 / 2 ^ 53) ^ k"
  shows "foldl (\<lambda>sum line. fadd sum (confidence line)) acc vs
      \<le> of_nat (k + length vs) * c * (1 + 1 / 2 ^ 53) ^ (k + length vs)"
  using assms
proof (induction vs arbitrary: k acc)
  case Nil
  then show ?case by simp
next
  case (Cons v vs)
  define u :: real where "u = 1 + 1 / 2 ^ 53"
  have u: "1 \<le> u" by (simp add: u_def)
  then have uk: "1 \<le> u ^ k" by simp
  have v: "0 \<le> confidence v" "confidence v \<le> c" using Cons.prems(1) by simp_all
  have "fadd acc (confidence v) \<le> (acc + confidence v) * u"
    unfolding fadd_def u_def using Cons.prems(3) v(1) by (intro rnd_between(2)) simp
  also have "\<dots> \<le> (of_nat k * c * u ^ k + c * u ^ k) * u"
  proof -
    have "confidence v \<le> c * u ^ k" using v(2) uk Cons.prems(2)
      by (metis mult.right_neutral mult_left_mono order_trans)
    then show ?thesis using Cons.prems(4) u by (intro mult_right_mono) (simp_all add: u_def)
  qed
  also have "\<dots> = of_nat (Suc k) * c * u ^ Suc k" by (simp add: algebra_simps)
  finally have 1: "fadd acc (confidence v) \<le> of_nat (Suc k) * c * (1 + 1 / 2 ^ 53) ^ Suc k"
    by (simp add: u_def)
  have 2: "0 \<le> fadd acc (confidence v)" using Cons.prems(3) v(1) by (simp add: fadd_def rnd_nonneg)
  have 3: "\<forall>v \<in> set vs. 0 \<le> confidence v \<and> confidence v \<le> c" using Cons.prems(1) by simp
  from Cons.IH[OF 3 Cons.prems(2) 2 1] show ?case by simp
qed

lemma statistics_fields:
  "totalLines (statistics vs) = length (filter (\<lambda>l. trim (content l) \<noteq> []) vs)"
  "aiLines (statistics vs) = length (filter isAI (filter (\<lambda>l. trim (content l) \<noteq> []) vs))"
  "humanLines (statistics vs) = totalLines (statistics vs) - aiLines (statistics vs)"
  "aiPercentage (statistics vs) = (if 0 < totalLines (statistics vs)
     then fmul (fdiv (of_nat (aiLines (statistics vs))) (of_nat (totalLines (statistics vs)))) 100 else 0)"
  "humanPercentage (statistics vs) = (if 0 < totalLines (statistics vs)
     then fmul (fdiv (of_nat (humanLines (statistics vs))) (of_nat (totalLines (statistics vs)))) 100 else 0)"
  "overallConfidence (statistics vs) = (if 0 < totalLines (statistics vs)
     then fdiv (foldl (\<lambda>sum line. fadd sum (confidence line)) 0
                  (filter (\<lambda>l. trim (content l) \<noteq> []) vs))
               (of_nat (totalLines (statistics vs)))
     else 1 / 2)"
  by (simp_all add: statistics_def Let_def)

lemma aiLines_le: "aiLines (statistics vs) \<le> totalLines (statistics vs)"
  by (simp only: statistics_fields length_filter_le)

lemma mean_bounds:
  assumes "\<forall>v \<in> set vs. confident v" "0 < length vs"
  defines "m \<equiv> fdiv (foldl (\<lambda>sum line. fadd sum (confidence line)) 0 vs) (of_nat (length vs))"
  shows "m \<le> rnd (95 / 100) * (1 + 1 / 2 ^ 53) ^ (length vs + 1)"
    and "length vs \<le> 2 ^ 53 \<Longrightarrow> 1 / 2 \<le> m"
proof -
  define s where "s = foldl (\<lambda>sum line. fadd sum (confidence line)) 0 vs"
  define n :: real where "n = of_nat (length vs)"
  define u :: real where "u = 1 + 1 / 2 ^ 53"
  define c :: real where "c = rnd (95 / 100)"
  have n: "0 < n" using assms(2) by (simp add: n_def)
  have c: "0 \<le> c" by (simp add: c_def rnd_19_20)
  have u: "1 \<le> u" by (simp add: u_def)
  have b: "\<forall>v \<in> set vs. 0 \<le> confidence v \<and> confidence v \<le> c"
    using assms(1) by (auto simp: confident_def c_def)
  have "s \<le> of_nat (0 + length vs) * c * (1 + 1 / 2 ^ 53) ^ (0 + length vs)"
    unfolding s_def using b c by (intro sum_upper) simp_all
  then have s: "s \<le> n * c * u ^ length vs" by (simp add: n_def u_def)
  have s0: "0 \<le> s"
  proof -
    have "of_nat (0 + length ([]::LineAnalysis list)) / 2 \<le> (0::real)" by simp
    have "\<And>acc. 0 \<le> acc \<Longrightarrow> 0 \<le> foldl (\<lambda>sum line. fadd sum (confidence line)) acc vs"
      using b
    proof (induction vs)
      case Nil
      then show ?case by simp
    next
      case (Cons v vs)
      have "0 \<le> fadd acc (confidence v)" using Cons.prems by (simp add: fadd_def rnd_nonneg)
      then show ?case using Cons by simp
    qed
    then show ?thesis by (simp add: s_def)
  qed
  have "s / n \<le> c * u ^ length vs" using s n by (simp add: field_simps)
  moreover have "0 \<le> s / n" using s0 n by simp
  ultimately have "rnd (s / n) \<le> c * u ^ length vs * u"
    using rnd_between(2)[of "s / n"] u
    by (metis (no_types, opaque_lifting) mult_right_mono order_trans u_def zero_le_one)
  then show "m \<le> rnd (95 / 100) * (1 + 1 / 2 ^ 53) ^ (length vs + 1)"
    by (simp add: m_def fdiv_def s_def n_def c_def u_def mult.assoc)
  show "1 / 2 \<le> m" if le: "length vs \<le> 2 ^ 53"
  proof -
    have "of_nat (0 + length vs) / 2 \<le> s" unfolding s_def
      using assms(1) le by (intro sum_lower) (simp_all add: confident_def)
    then have "1 / 2 \<le> s / n" using n by (simp add: n_def field_simps)
    then have "rnd (1 / 2) \<le> rnd (s / n)" by (intro rnd_mono) simp_all
    then show ?thesis by (simp add: m_def fdiv_def s_def n_def)
  qed
qed

lemma percent_bounds:
  assumes "0 \<le> q"
  shows "q * 100 * (1 - 1 / 2 ^ 53)\<^sup>2 \<le> fmul (fdiv q 1) 100"
    and "fmul (fdiv q 1) 100 \<le> q * 100 * (1 + 1 / 2 ^ 53)\<^sup>2"
proof -
  define lo :: real where "lo = 1 - 1 / 2 ^ 53"
  define hi :: real where "hi = 1 + 1 / 2 ^ 53"
  have lo: "0 \<le> lo" and hi: "0 \<le> hi" by (simp_all add: lo_def hi_def)
  have rq: "q * lo \<le> rnd q" "rnd q \<le> q * hi" "0 \<le> rnd q"
    using rnd_between[OF assms] rnd_nonneg[OF assms] by (simp_all add: lo_def hi_def)
  then have r100: "0 \<le> rnd q * 100" by simp
  have "q * lo * 100 * lo \<le> rnd q * 100 * lo" using rq(1) lo by (intro mult_right_mono) simp_all
  also have "\<dots> \<le> rnd (rnd q * 100)" using rnd_between(1)[OF r100] by (simp add: lo_def)
  finally show "q * 100 * (1 - 1 / 2 ^ 53)\<^sup>2 \<le> fmul (fdiv q 1) 100"
    by (simp add: fmul_def fdiv_def lo_def power2_eq_square algebra_simps)
  have "rnd (rnd q * 100) \<le> rnd q * 100 * hi" using rnd_between(2)[OF r100] by (simp add: hi_def)
  also have "\<dots> \<le> q * hi * 100 * hi" using rq(2) hi by (intro mult_right_mono) simp_all
  finally show "fmul (fdiv q 1) 100 \<le> q * 100 * (1 + 1 / 2 ^ 53)\<^sup>2"
    by (simp add: fmul_def fdiv_def hi_def power2_eq_square algebra_simps)
qed

lemma percent_sum:
  assumes "a \<le> n" "0 < n"
  shows "\<bar>fmul (fdiv (of_nat a) (of_nat n)) 100 + fmul (fdiv (of_nat (n - a)) (of_nat n)) 100 - 100\<bar>
         \<le> 1 / 2 ^ 45"
proof -
  define qa :: real where "qa = of_nat a / of_nat n"
  define qh :: real where "qh = of_nat (n - a) / of_nat n"
  have q: "0 \<le> qa" "0 \<le> qh" by (simp_all add: qa_def qh_def)
  have "of_nat a + of_nat (n - a) = (of_nat n :: real)" using assms(1) by (simp add: of_nat_diff)
  then have one: "qa + qh = 1" using assms(2) by (simp add: qa_def qh_def add_divide_distrib[symmetric])
  have pa: "fmul (fdiv (of_nat a) (of_nat n)) 100 = fmul (fdiv qa 1) 100"
    and ph: "fmul (fdiv (of_nat (n - a)) (of_nat n)) 100 = fmul (fdiv qh 1) 100"
    by (simp_all add: fdiv_def qa_def qh_def)
  note ba = percent_bounds[OF q(1)] and bh = percent_bounds[OF q(2)]
  have lo: "(qa + qh) * 100 * (1 - 1 / 2 ^ 53)\<^sup>2
      \<le> fmul (fdiv qa 1) 100 + fmul (fdiv qh 1) 100"
    using ba(1) bh(1) by (simp add: algebra_simps)
  have hi: "fmul (fdiv qa 1) 100 + fmul (fdiv qh 1) 100
      \<le> (qa + qh) * 100 * (1 + 1 / 2 ^ 53)\<^sup>2"
    using ba(2) bh(2) by (simp add: algebra_simps)
  define e :: real where "e = 1 / 2 ^ 45"
  define l2 :: real where "l2 = 100 * (1 - 1 / 2 ^ 53)\<^sup>2"
  define h2 :: real where "h2 = 100 * (1 + 1 / 2 ^ 53)\<^sup>2"
  have "h2 \<le> 100 + e" "100 - e \<le> l2"
    by (simp_all add: power2_eq_square e_def l2_def h2_def)
  moreover have "l2 \<le> fmul (fdiv qa 1) 100 + fmul (fdiv qh 1) 100"
    "fmul (fdiv qa 1) 100 + fmul (fdiv qh 1) 100 \<le> h2"
    using lo hi unfolding one by (simp_all add: l2_def h2_def)
  ultimately have "\<bar>fmul (fdiv qa 1) 100 + fmul (fdiv qh 1) 100 - 100\<bar> \<le> e"
    by linarith
  then show ?thesis unfolding pa ph e_def .
qed

section \<open>Evaluation\<close>

text \<open>
  The inputs below are run through the model inside the logic. The outcome of every regular
  expression on a given line is computed from the matcher; every rounded operation is
  justified by \<open>rnd_eqI\<close> or \<open>rnd_tieI\<close> from the double it yields.
\<close>

lemma rnd_3_10: "rnd (3 / 10) = 5404319552844595 / 18014398509481984"
  using rnd_eqI[of "-54" "3 / 10" 5404319552844595] by (simp add: power_int_minus)

lemma rnd_9_10: "rnd (9 / 10) = 8106479329266893 / 9007199254740992"
  using rnd_eqI[of "-53" "9 / 10" 8106479329266893] by (simp add: power_int_minus)

lemma rnd_1_5: "rnd (1 / 5) = 3602879701896397 / 18014398509481984"
  using rnd_eqI[of "-55" "1 / 5" 7205759403792794] by (simp add: power_int_minus)

lemma rnd_2_5: "rnd (2 / 5) = 3602879701896397 / 9007199254740992"
  using rnd_eqI[of "-54" "2 / 5" 7205759403792794] by (simp add: power_int_minus)

lemmas literals = rnd_1_10 rnd_1_5 rnd_3_10 rnd_2_5 rnd_half rnd_9_10 rnd_19_20

lemma fadd_0_left: "fadd 0 x = rnd x" by (simp add: fadd_def)
lemma fadd_0_right: "fadd x 0 = rnd x" by (simp add: fadd_def)
lemma fdiv_self: "x \<noteq> 0 \<Longrightarrow> fdiv x x = 1" by (simp add: fdiv_def)
lemma fdiv_0_left: "fdiv 0 x = 0" by (simp add: fdiv_def)
lemma fmul_1_left: "fmul 1 x = rnd x" by (simp add: fmul_def)
lemma fmul_not_neg: "0 \<le> x \<Longrightarrow> 0 \<le> y \<Longrightarrow> (fmul x y < 0) = False"
  using rnd_nonneg[of "x * y"] by (simp add: fmul_def not_less)

lemmas arith0 = fadd_0_left fadd_0_right fdiv_self fdiv_0_left fmul_1_left fmul_not_neg

lemma rnd_double_10: "rnd (3602879701896397 / 36028797018963968) = 3602879701896397 / 36028797018963968"
  using rnd_eqI[of "-56" "3602879701896397 / 36028797018963968" 7205759403792794] by (simp add: power_int_minus)

lemma rnd_double_20: "rnd (3602879701896397 / 18014398509481984) = 3602879701896397 / 18014398509481984"
  using rnd_eqI[of "-55" "3602879701896397 / 18014398509481984" 7205759403792794] by (simp add: power_int_minus)

lemma rnd_double_30: "rnd (5404319552844595 / 18014398509481984) = 5404319552844595 / 18014398509481984"
  using rnd_eqI[of "-54" "5404319552844595 / 18014398509481984" 5404319552844595] by (simp add: power_int_minus)

lemma rnd_double_40: "rnd (3602879701896397 / 9007199254740992) = 3602879701896397 / 9007199254740992"
  using rnd_eqI[of "-54" "3602879701896397 / 9007199254740992" 7205759403792794] by (simp add: power_int_minus)

lemma rnd_double_90: "rnd (8106479329266893 / 9007199254740992) = 8106479329266893 / 9007199254740992"
  using rnd_eqI[of "-53" "8106479329266893 / 9007199254740992" 8106479329266893] by (simp add: power_int_minus)

lemma rnd_double_95: "rnd (4278419646001971 / 4503599627370496) = 4278419646001971 / 4503599627370496"
  using rnd_eqI[of "-53" "4278419646001971 / 4503599627370496" 8556839292003942] by (simp add: power_int_minus)

lemma sum_095_2: "fadd (4278419646001971 / 4503599627370496) (4278419646001971 / 4503599627370496) = 4278419646001971 / 2251799813685248"
  unfolding fadd_def using rnd_eqI[of "-52" "(4278419646001971 / 4503599627370496) + (4278419646001971 / 4503599627370496)" 8556839292003942]
  by (simp add: power_int_minus)

lemma sum_095_3: "fadd (4278419646001971 / 2251799813685248) (4278419646001971 / 4503599627370496) = 1604407367250739 / 562949953421312"
  unfolding fadd_def using rnd_tieI[of "-51" "(4278419646001971 / 2251799813685248) + (4278419646001971 / 4503599627370496)" 6417629469002956]
  by (simp add: power_int_minus)

lemma mean_095_3: "fdiv (1604407367250739 / 562949953421312) (3) = 8556839292003941 / 9007199254740992"
  unfolding fdiv_def using rnd_eqI[of "-53" "(1604407367250739 / 562949953421312) / (3)" 8556839292003941]
  by (simp add: power_int_minus)

lemma sum_095_4: "fadd (1604407367250739 / 562949953421312) (4278419646001971 / 4503599627370496) = 4278419646001971 / 1125899906842624"
  unfolding fadd_def using rnd_tieI[of "-51" "(1604407367250739 / 562949953421312) + (4278419646001971 / 4503599627370496)" 8556839292003941]
  by (simp add: power_int_minus)

lemma sum_095_5: "fadd (4278419646001971 / 1125899906842624) (4278419646001971 / 4503599627370496) = 19 / 4"
  unfolding fadd_def using rnd_eqI[of "-50" "(4278419646001971 / 1125899906842624) + (4278419646001971 / 4503599627370496)" 5348024557502464]
  by (simp add: power_int_minus)

lemma sum_095_6: "fadd (19 / 4) (4278419646001971 / 4503599627370496) = 6417629469002957 / 1125899906842624"
  unfolding fadd_def using rnd_eqI[of "-50" "(19 / 4) + (4278419646001971 / 4503599627370496)" 6417629469002957]
  by (simp add: power_int_minus)

lemma mean_095_6: "fdiv (6417629469002957 / 1125899906842624) (6) = 8556839292003943 / 9007199254740992"
  unfolding fdiv_def using rnd_eqI[of "-53" "(6417629469002957 / 1125899906842624) / (6)" 8556839292003943]
  by (simp add: power_int_minus)

lemma third_1: "fdiv (1) (3) = 6004799503160661 / 18014398509481984"
  unfolding fdiv_def using rnd_eqI[of "-54" "(1) / (3)" 6004799503160661]
  by (simp add: power_int_minus)

lemma percent_1_3: "fmul (6004799503160661 / 18014398509481984) (100) = 2345624805922133 / 70368744177664"
  unfolding fmul_def using rnd_eqI[of "-47" "(6004799503160661 / 18014398509481984) * (100)" 4691249611844266]
  by (simp add: power_int_minus)

lemma third_2: "fdiv (2) (3) = 6004799503160661 / 9007199254740992"
  unfolding fdiv_def using rnd_eqI[of "-53" "(2) / (3)" 6004799503160661]
  by (simp add: power_int_minus)

lemma percent_2_3: "fmul (6004799503160661 / 9007199254740992) (100) = 2345624805922133 / 35184372088832"
  unfolding fmul_def using rnd_eqI[of "-46" "(6004799503160661 / 9007199254740992) * (100)" 4691249611844266]
  by (simp add: power_int_minus)

lemma percent_total_3: "fadd (2345624805922133 / 70368744177664) (2345624805922133 / 35184372088832) = 7036874417766399 / 70368744177664"
  unfolding fadd_def using rnd_eqI[of "-46" "(2345624805922133 / 70368744177664) + (2345624805922133 / 35184372088832)" 7036874417766399]
  by (simp add: power_int_minus)

lemma sum_05_03: "fadd (1 / 2) (5404319552844595 / 18014398509481984) = 3602879701896397 / 4503599627370496"
  unfolding fadd_def using rnd_tieI[of "-53" "(1 / 2) + (5404319552844595 / 18014398509481984)" 7205759403792793]
  by (simp add: power_int_minus)

lemma sum_08_03: "fadd (3602879701896397 / 4503599627370496) (5404319552844595 / 18014398509481984) = 2476979795053773 / 2251799813685248"
  unfolding fadd_def using rnd_eqI[of "-52" "(3602879701896397 / 4503599627370496) + (5404319552844595 / 18014398509481984)" 4953959590107546]
  by (simp add: power_int_minus)

lemma sum_03_11: "fadd (5404319552844595 / 18014398509481984) (2476979795053773 / 2251799813685248) = 6305039478318695 / 4503599627370496"
  unfolding fadd_def using rnd_eqI[of "-52" "(5404319552844595 / 18014398509481984) + (2476979795053773 / 2251799813685248)" 6305039478318695]
  by (simp add: power_int_minus)

lemma quot_11_14: "fdiv (2476979795053773 / 2251799813685248) (6305039478318695 / 4503599627370496) = 7077085128725065 / 9007199254740992"
  unfolding fdiv_def using rnd_eqI[of "-53" "(2476979795053773 / 2251799813685248) / (6305039478318695 / 4503599627370496)" 7077085128725065]
  by (simp add: power_int_minus)

lemma sum_03_08: "fadd (5404319552844595 / 18014398509481984) (3602879701896397 / 4503599627370496) = 2476979795053773 / 2251799813685248"
  unfolding fadd_def using rnd_eqI[of "-52" "(5404319552844595 / 18014398509481984) + (3602879701896397 / 4503599627370496)" 4953959590107546]
  by (simp add: power_int_minus)

lemma quot_08_11: "fdiv (3602879701896397 / 4503599627370496) (2476979795053773 / 2251799813685248) = 3275345183542179 / 4503599627370496"
  unfolding fdiv_def using rnd_eqI[of "-53" "(3602879701896397 / 4503599627370496) / (2476979795053773 / 2251799813685248)" 6550690367084358]
  by (simp add: power_int_minus)

lemma sum_01_08: "fadd (3602879701896397 / 36028797018963968) (3602879701896397 / 4503599627370496) = 8106479329266893 / 9007199254740992"
  unfolding fadd_def using rnd_eqI[of "-53" "(3602879701896397 / 36028797018963968) + (3602879701896397 / 4503599627370496)" 8106479329266893]
  by (simp add: power_int_minus)

lemma quot_08_09: "fdiv (3602879701896397 / 4503599627370496) (8106479329266893 / 9007199254740992) = 8006399337547549 / 9007199254740992"
  unfolding fdiv_def using rnd_eqI[of "-53" "(3602879701896397 / 4503599627370496) / (8106479329266893 / 9007199254740992)" 8006399337547549]
  by (simp add: power_int_minus)

lemma rnd_double_08: "rnd (3602879701896397 / 4503599627370496) = 3602879701896397 / 4503599627370496"
  using rnd_eqI[of "-53" "3602879701896397 / 4503599627370496" 7205759403792794] by (simp add: power_int_minus)


lemmas doubles = rnd_double_10 rnd_double_20 rnd_double_30 rnd_double_40 rnd_double_90
  rnd_double_95 rnd_double_08

lemmas line_defs = analyzeLine_def line_tally_def AI_PATTERNS_def LANGUAGE_PATTERNS_def
  javascript_patterns_def python_patterns_def typescript_patterns_def object_prototype_keys_def
  lastIndex_def set_lastIndex_def fresh_def heuristics_def final_scores_def add_human_def
  add_ai_def record_match_def Let_def

lemmas structure_defs = analyzeCodeStructure_def ratio_gt_def Let_def

lemma abc_tests:
  "regexp_test re_comment 0 ''abc'' = (False, 0)"
  "regexp_test re_generic 0 ''abc'' = (False, 0)"
  "regexp_test re_errors 0 ''abc'' = (False, 0)"
  "regexp_test re_repeat 0 ''abc'' = (False, 0)"
  "regexp_test re_todo 0 ''abc'' = (False, 0)"
  "regexp_test re_regex 0 ''abc'' = (False, 0)"
  "regexp_test re_spacing 0 ''abc'' = (False, 0)"
  "regexp_test re_abbrev 0 ''abc'' = (False, 0)"
  "regexp_test re_console 0 ''abc'' = (False, 0)"
  "regexp_test re_function 0 ''abc'' = (False, 0)"
  "string_match re_punctuation ''abc'' = None"
  "string_match re_imperfect ''abc'' = None"
  "string_match re_quirky ''abc'' = None"
  "trim ''abc'' = ''abc''"
  by code_simp+

lemma xx_tests:
  "regexp_test re_comment 0 ''x = x;'' = (False, 0)"
  "regexp_test re_generic 0 ''x = x;'' = (False, 0)"
  "regexp_test re_errors 0 ''x = x;'' = (False, 0)"
  "regexp_test re_repeat 0 ''x = x;'' = (True, 5)"
  "regexp_test re_todo 0 ''x = x;'' = (False, 0)"
  "regexp_test re_regex 0 ''x = x;'' = (False, 0)"
  "regexp_test re_spacing 0 ''x = x;'' = (False, 0)"
  "regexp_test re_abbrev 0 ''x = x;'' = (False, 0)"
  "regexp_test re_console 0 ''x = x;'' = (False, 0)"
  "regexp_test re_function 0 ''x = x;'' = (False, 0)"
  "string_match re_punctuation ''x = x;'' = Some (5, 6)"
  "string_match re_imperfect ''x = x;'' = None"
  "string_match re_quirky ''x = x;'' = None"
  "trim ''x = x;'' = ''x = x;''"
  "regexp_test re_repeat 5 ''x = x;'' = (False, 0)"
  by code_simp+

lemma abc_code:
  "split_nl (''abc'') = [''abc'']"
  "non_blank_lines (''abc'') = [''abc'']"
  "consistent_count [''abc''] = 1"
  "match_count re_comment (''abc'') = 0"
  "match_count re_defensive (''abc'') = 0"
  by code_simp+

lemma xx_code:
  "split_nl (''x = x;'') = [''x = x;'']"
  "non_blank_lines (''x = x;'') = [''x = x;'']"
  "consistent_count [''x = x;''] = 1"
  "match_count re_comment (''x = x;'') = 0"
  "match_count re_defensive (''x = x;'') = 0"
  by code_simp+

lemma abc_structure: "analyzeCodeStructure ''abc'' = 5404319552844595 / 18014398509481984"
  by (simp add: structure_defs abc_code arith0 literals doubles)

lemma xx_structure: "analyzeCodeStructure ''x = x;'' = 5404319552844595 / 18014398509481984"
  by (simp add: structure_defs xx_code arith0 literals doubles)

lemma abc_line_fresh: "analyzeLine ''abc'' n ''javascript'' fresh = (Inr abc_verdict, zeroed)"
  by (simp add: line_defs abc_tests arith0 literals doubles)

lemma abc_line_zeroed: "analyzeLine ''abc'' n ''javascript'' zeroed = (Inr abc_verdict, zeroed)"
  by (simp add: line_defs abc_tests arith0 literals doubles)

lemma xx_line_fresh: "analyzeLine ''x = x;'' n ''javascript'' fresh = (Inr xx_verdict, repeated)"
  by (simp add: line_defs xx_tests arith0 literals doubles)

lemma xx_line_repeated: "analyzeLine ''x = x;'' n ''javascript'' repeated = (Inr xx_missed, zeroed)"
  by (simp add: line_defs xx_tests arith0 literals doubles)

lemma xx_first:
  "analyzeCode ''x = x;'' ''javascript'' fresh =
    (Inr \<lparr>totalLines = 1, aiLines = 1, humanLines = 0, aiPercentage = 100, humanPercentage = 0,
          overallConfidence = 4278419646001971 / 4503599627370496,
          lineAnalysis = [xx_verdict]\<rparr>, repeated)"
  by (simp add: analyzeCode_def xx_code xx_structure xx_line_fresh adjust_def statistics_def Let_def
      xx_tests arith0 doubles fmul_def fdiv_def)

lemma xx_second:
  "analyzeCode ''x = x;'' ''javascript'' repeated =
    (Inr \<lparr>totalLines = 1, aiLines = 0, humanLines = 1, aiPercentage = 0, humanPercentage = 100,
          overallConfidence = 1 / 2,
          lineAnalysis = [xx_missed]\<rparr>, zeroed)"
  by (simp add: analyzeCode_def xx_code xx_structure xx_line_repeated adjust_def statistics_def Let_def
      xx_tests arith0 doubles fmul_def fdiv_def)

lemma x_tests:
  "regexp_test re_comment 0 ''x'' = (False, 0)"
  "regexp_test re_generic 0 ''x'' = (False, 0)"
  "regexp_test re_errors 0 ''x'' = (False, 0)"
  "regexp_test re_repeat 0 ''x'' = (False, 0)"
  "regexp_test re_todo 0 ''x'' = (False, 0)"
  "regexp_test re_regex 0 ''x'' = (False, 0)"
  "regexp_test re_spacing 0 ''x'' = (False, 0)"
  "regexp_test re_abbrev 0 ''x'' = (False, 0)"
  "trim ''x'' = ''x''"
  "split_nl ''x'' = [''x'']"
  by code_simp+

lemma two_code:
  "split_nl (join_nl [''x = x;'', ''x = x;'']) = [''x = x;'', ''x = x;'']"
  "non_blank_lines (join_nl [''x = x;'', ''x = x;'']) = [''x = x;'', ''x = x;'']"
  "consistent_count [''x = x;'', ''x = x;''] = 2"
  "match_count re_comment (join_nl [''x = x;'', ''x = x;'']) = 0"
  "match_count re_defensive (join_nl [''x = x;'', ''x = x;'']) = 0"
  by code_simp+

lemma three_code:
  "split_nl (join_nl [''abc'', ''abc'', ''x = x;'']) = [''abc'', ''abc'', ''x = x;'']"
  "non_blank_lines (join_nl [''abc'', ''abc'', ''x = x;'']) = [''abc'', ''abc'', ''x = x;'']"
  "consistent_count [''abc'', ''abc'', ''x = x;''] = 3"
  "match_count re_comment (join_nl [''abc'', ''abc'', ''x = x;'']) = 0"
  "match_count re_defensive (join_nl [''abc'', ''abc'', ''x = x;'']) = 0"
  by code_simp+

lemma six_code:
  "split_nl (join_nl [''abc'', ''abc'', ''abc'', ''abc'', ''abc'', ''abc'']) = [''abc'', ''abc'', ''abc'', ''abc'', ''abc'', ''abc'']"
  "non_blank_lines (join_nl [''abc'', ''abc'', ''abc'', ''abc'', ''abc'', ''abc'']) = [''abc'', ''abc'', ''abc'', ''abc'', ''abc'', ''abc'']"
  "consistent_count [''abc'', ''abc'', ''abc'', ''abc'', ''abc'', ''abc''] = 6"
  "match_count re_comment (join_nl [''abc'', ''abc'', ''abc'', ''abc'', ''abc'', ''abc'']) = 0"
  "match_count re_defensive (join_nl [''abc'', ''abc'', ''abc'', ''abc'', ''abc'', ''abc'']) = 0"
  by code_simp+

declare join_nl.simps [simp del]

lemma two_structure:
  "analyzeCodeStructure (join_nl [''x = x;'', ''x = x;'']) = 5404319552844595 / 18014398509481984"
  by (simp add: structure_defs two_code arith0 literals doubles)

lemma three_structure:
  "analyzeCodeStructure (join_nl [''abc'', ''abc'', ''x = x;'']) = 5404319552844595 / 18014398509481984"
  by (simp add: structure_defs three_code arith0 literals doubles)

lemma six_structure:
  "analyzeCodeStructure (join_nl [''abc'', ''abc'', ''abc'', ''abc'', ''abc'', ''abc''])
     = 5404319552844595 / 18014398509481984"
  by (simp add: structure_defs six_code arith0 literals doubles)

lemma xx_line_zeroed: "analyzeLine ''x = x;'' n ''javascript'' zeroed = (Inr xx_verdict, repeated)"
  by (simp add: line_defs xx_tests arith0 literals doubles)

lemma two_lines:
  "map_sum id lineAnalysis (fst (analyzeCode (join_nl [''x = x;'', ''x = x;'']) ''javascript'' fresh))
     = Inr [xx_verdict, xx_missed]"
  by (simp add: analyzeCode_def two_code two_structure xx_line_fresh xx_line_repeated adjust_def)

lemma three_report:
  "fst (analyzeCode (join_nl [''abc'', ''abc'', ''x = x;'']) ''javascript'' fresh) =
     Inr \<lparr>totalLines = 3, aiLines = 1, humanLines = 2,
          aiPercentage = 2345624805922133 / 70368744177664,
          humanPercentage = 2345624805922133 / 35184372088832,
          overallConfidence = 8556839292003941 / 9007199254740992,
          lineAnalysis = [abc_verdict, abc_verdict, xx_verdict]\<rparr>"
  by (simp add: analyzeCode_def three_code three_structure abc_line_fresh abc_line_zeroed
      xx_line_zeroed adjust_def statistics_def Let_def abc_tests xx_tests arith0 doubles
      sum_095_2 sum_095_3 mean_095_3 third_1 third_2 percent_1_3 percent_2_3)

lemma six_report:
  "map_sum id overallConfidence
     (fst (analyzeCode (join_nl [''abc'', ''abc'', ''abc'', ''abc'', ''abc'', ''abc''])
            ''javascript'' fresh)) = Inr (8556839292003943 / 9007199254740992)"
  by (simp add: analyzeCode_def six_code six_structure abc_line_fresh abc_line_zeroed
      adjust_def statistics_def Let_def abc_tests arith0 doubles
      sum_095_2 sum_095_3 sum_095_4 sum_095_5 sum_095_6 mean_095_6)

lemma x_constructor: "fst (analyzeCode ''x'' ''constructor'' fresh) = Inl TypeError"
  by (simp add: analyzeCode_def x_tests line_defs)


lemma todo_tests:
  "regexp_test re_comment 0 ''// TODO: fix this hack later'' = (True, 28)"
  "regexp_test re_generic 0 ''// TODO: fix this hack later'' = (False, 0)"
  "regexp_test re_errors 0 ''// TODO: fix this hack later'' = (False, 0)"
  "regexp_test re_repeat 0 ''// TODO: fix this hack later'' = (False, 0)"
  "regexp_test re_todo 0 ''// TODO: fix this hack later'' = (True, 8)"
  "regexp_test re_regex 0 ''// TODO: fix this hack later'' = (True, 2)"
  "regexp_test re_spacing 0 ''// TODO: fix this hack later'' = (False, 0)"
  "regexp_test re_abbrev 0 ''// TODO: fix this hack later'' = (False, 0)"
  "regexp_test re_console 0 ''// TODO: fix this hack later'' = (False, 0)"
  "regexp_test re_function 0 ''// TODO: fix this hack later'' = (False, 0)"
  "regexp_test re_print 0 ''// TODO: fix this hack later'' = (False, 0)"
  "regexp_test re_def 0 ''// TODO: fix this hack later'' = (False, 0)"
  "regexp_test re_annotation 0 ''// TODO: fix this hack later'' = (False, 0)"
  "string_match re_punctuation ''// TODO: fix this hack later'' = None"
  "string_match re_imperfect ''// TODO: fix this hack later'' = None"
  "string_match re_quirky ''// TODO: fix this hack later'' = Some (18, 22)"
  "trim ''// TODO: fix this hack later'' = ''// TODO: fix this hack later''"
  "split_nl ''// TODO: fix this hack later'' = [''// TODO: fix this hack later'']"
  "length ''// TODO: fix this hack later'' = 28"
  by code_simp+

lemma foo_tests:
  "regexp_test re_comment 0 ''foo aaaaaaaaaaaaaaaaaaaaaaa'' = (False, 0)"
  "regexp_test re_generic 0 ''foo aaaaaaaaaaaaaaaaaaaaaaa'' = (False, 0)"
  "regexp_test re_errors 0 ''foo aaaaaaaaaaaaaaaaaaaaaaa'' = (False, 0)"
  "regexp_test re_repeat 0 ''foo aaaaaaaaaaaaaaaaaaaaaaa'' = (False, 0)"
  "regexp_test re_todo 0 ''foo aaaaaaaaaaaaaaaaaaaaaaa'' = (False, 0)"
  "regexp_test re_regex 0 ''foo aaaaaaaaaaaaaaaaaaaaaaa'' = (False, 0)"
  "regexp_test re_spacing 0 ''foo aaaaaaaaaaaaaaaaaaaaaaa'' = (False, 0)"
  "regexp_test re_abbrev 0 ''foo aaaaaaaaaaaaaaaaaaaaaaa'' = (False, 0)"
  "regexp_test re_console 0 ''foo aaaaaaaaaaaaaaaaaaaaaaa'' = (False, 0)"
  "regexp_test re_function 0 ''foo aaaaaaaaaaaaaaaaaaaaaaa'' = (False, 0)"
  "string_match re_punctuation ''foo aaaaaaaaaaaaaaaaaaaaaaa'' = None"
  "string_match re_imperfect ''foo aaaaaaaaaaaaaaaaaaaaaaa'' = None"
  "string_match re_quirky ''foo aaaaaaaaaaaaaaaaaaaaaaa'' = Some (0, 3)"
  "trim ''foo aaaaaaaaaaaaaaaaaaaaaaa'' = ''foo aaaaaaaaaaaaaaaaaaaaaaa''"
  "split_nl ''foo aaaaaaaaaaaaaaaaaaaaaaa'' = [''foo aaaaaaaaaaaaaaaaaaaaaaa'']"
  "length ''foo aaaaaaaaaaaaaaaaaaaaaaa'' = 27"
  by code_simp+

lemma foo_todo_tests:
  "regexp_test re_comment 0 ''foo aaaaaaaaaaaaaaaaaaaaaaa TODO:'' = (False, 0)"
  "regexp_test re_generic 0 ''foo aaaaaaaaaaaaaaaaaaaaaaa TODO:'' = (False, 0)"
  "regexp_test re_errors 0 ''foo aaaaaaaaaaaaaaaaaaaaaaa TODO:'' = (False, 0)"
  "regexp_test re_repeat 0 ''foo aaaaaaaaaaaaaaaaaaaaaaa TODO:'' = (False, 0)"
  "regexp_test re_todo 0 ''foo aaaaaaaaaaaaaaaaaaaaaaa TODO:'' = (True, 33)"
  "regexp_test re_regex 0 ''foo aaaaaaaaaaaaaaaaaaaaaaa TODO:'' = (False, 0)"
  "regexp_test re_spacing 0 ''foo aaaaaaaaaaaaaaaaaaaaaaa TODO:'' = (False, 0)"
  "regexp_test re_abbrev 0 ''foo aaaaaaaaaaaaaaaaaaaaaaa TODO:'' = (False, 0)"
  "regexp_test re_console 0 ''foo aaaaaaaaaaaaaaaaaaaaaaa TODO:'' = (False, 0)"
  "regexp_test re_function 0 ''foo aaaaaaaaaaaaaaaaaaaaaaa TODO:'' = (False, 0)"
  "string_match re_punctuation ''foo aaaaaaaaaaaaaaaaaaaaaaa TODO:'' = None"
  "string_match re_imperfect ''foo aaaaaaaaaaaaaaaaaaaaaaa TODO:'' = None"
  "string_match re_quirky ''foo aaaaaaaaaaaaaaaaaaaaaaa TODO:'' = Some (0, 3)"
  "trim ''foo aaaaaaaaaaaaaaaaaaaaaaa TODO:'' = ''foo aaaaaaaaaaaaaaaaaaaaaaa TODO:''"
  "split_nl ''foo aaaaaaaaaaaaaaaaaaaaaaa TODO:'' = [''foo aaaaaaaaaaaaaaaaaaaaaaa TODO:'']"
  "length ''foo aaaaaaaaaaaaaaaaaaaaaaa TODO:'' = 33"
  by code_simp+


lemmas line_defs0 = analyzeLine_def line_tally_def AI_PATTERNS_def
  lastIndex_def set_lastIndex_def fresh_def heuristics_def final_scores_def add_human_def
  add_ai_def record_match_def Let_def

lemmas todo_sums = sum_05_03 sum_08_03 sum_03_11 quot_11_14

lemma todo_tally_known:
  assumes "language \<in> {''javascript'', ''python'', ''typescript''}"
  shows "fst (line_tally todo_line language fresh) = Inr todo_tally"
  using assms by (auto simp: line_defs todo_tests arith0 literals doubles todo_sums)

lemma todo_tally_unknown:
  assumes "LANGUAGE_PATTERNS language = Undefined"
  shows "fst (line_tally todo_line language fresh) = Inr todo_tally"
  using assms by (simp add: line_defs0 todo_tests arith0 literals doubles todo_sums)

lemma LANGUAGE_PATTERNS_cases:
  assumes "LANGUAGE_PATTERNS language \<noteq> Inherited"
  shows "language \<in> {''javascript'', ''python'', ''typescript''} \<or> LANGUAGE_PATTERNS language = Undefined"
  using assms by (auto simp: LANGUAGE_PATTERNS_def split: if_splits)

lemma todo_tally_any:
  assumes "LANGUAGE_PATTERNS language \<noteq> Inherited"
  shows "fst (line_tally todo_line language fresh) = Inr todo_tally"
  using LANGUAGE_PATTERNS_cases[OF assms] todo_tally_known todo_tally_unknown by blast

lemma todo_final: "final_scores todo_line todo_tally = todo_verdict"
  by (simp add: final_scores_def Let_def arith0 literals doubles todo_sums)

lemma todo_report:
  assumes "LANGUAGE_PATTERNS language \<noteq> Inherited"
  shows "map_sum id lineAnalysis (fst (analyzeCode todo_line language fresh)) = Inr [todo_verdict]"
proof -
  obtain st' where "line_tally todo_line language fresh = (Inr todo_tally, st')"
    using todo_tally_any[OF assms] by (cases "line_tally todo_line language fresh") simp
  then have "analyzeLine todo_line 1 language fresh = (Inr todo_verdict, st')"
    by (simp add: analyzeLine_def todo_tests todo_final)
  then show ?thesis by (simp add: analyzeCode_def todo_tests adjust_def)
qed

lemma analyzeCode_Nil:
  "analyzeCode [] language st =
     (Inr \<lparr>totalLines = 0, aiLines = 0, humanLines = 0, aiPercentage = 0, humanPercentage = 0,
           overallConfidence = 1 / 2,
           lineAnalysis = [\<lparr>content = [], isAI = False, confidence = 1 / 2,
                            reasons = [''Empty line - neutral'']\<rparr>]\<rparr>, st)"
  by (simp add: analyzeCode_def analyzeLine_def trim_def statistics_def adjust_def)

section \<open>The TODO marker\<close>

text \<open>
  With a freshly loaded registry the scores of a line are a fold over the patterns that depends
  on the line only. Between a line and the same line with the marker \<^verbatim>\<open>TODO:\<close> in it, when no
  other outcome differs, the AI score is the same and the human score grows by 0.5 up to the
  rounding of the later additions; the quotient that gives the confidence then does not go
  down, rounding included.
\<close>

lemma hit_exec: "hit re s = (regexp_exec re s 0 \<noteq> None)"
  by (auto simp: regexp_test_def hit_def split: option.splits)

lemma lastIndex_set:
  "lastIndex (set_lastIndex r v st) r' = (if r' = r then v else lastIndex st r')"
  by (simp add: lastIndex_def set_lastIndex_def update_conv')

lemma for_patterns_fst:
  assumes "inj ref" "\<forall>j \<ge> i. lastIndex st (ref j) = 0"
  shows "fst (for_patterns ref i ps s (t, st)) = foldl (note_hit s) t ps"
  using assms(2)
proof (induction ps arbitrary: i t st)
  case Nil
  show ?case by simp
next
  case (Cons p ps)
  obtain m li where test: "regexp_test (pattern p) 0 s = (m, li)" by (cases "regexp_test (pattern p) 0 s")
  then have m: "m = hit (pattern p) s" by (simp add: hit_def)
  have zero: "lastIndex st (ref i) = 0" using Cons.prems by simp
  have "\<forall>j \<ge> Suc i. lastIndex (set_lastIndex (ref i) li st) (ref j) = 0"
    using Cons.prems assms(1) by (auto simp: lastIndex_set inj_eq)
  from Cons.IH[OF this] show ?case
    by (simp add: zero test m note_hit_def)
qed

lemma for_patterns_other:
  assumes "r \<notin> range ref"
  shows "lastIndex (snd (for_patterns ref i ps s a)) r = lastIndex (snd a) r"
proof (induction ps arbitrary: i a)
  case Nil
  show ?case by simp
next
  case (Cons p ps)
  show ?case using assms by (auto simp: Cons.IH lastIndex_set split: prod.splits)
qed

lemma lastIndex_fresh [simp]: "lastIndex fresh r = 0"
  by (simp add: lastIndex_def fresh_def)

lemma line_tally_fresh:
  assumes "LANGUAGE_PATTERNS language \<noteq> Inherited"
  shows "fst (line_tally s language fresh) =
    Inr (heuristics s (foldl (note_hit s)
          (foldl (note_hit s) \<lparr>aiScore = 0, humanScore = 0, noted = []\<rparr> AI_PATTERNS)
          (language_list language)))"
proof -
  define t0 where "t0 = \<lparr>aiScore = 0, humanScore = 0, noted = []\<rparr>"
  obtain t1 st1 where a: "for_patterns General 0 AI_PATTERNS s (t0, fresh) = (t1, st1)"
    by (cases "for_patterns General 0 AI_PATTERNS s (t0, fresh)")
  have g: "inj General" by (simp add: inj_def)
  have "fst (for_patterns General 0 AI_PATTERNS s (t0, fresh)) = foldl (note_hit s) t0 AI_PATTERNS"
    by (rule for_patterns_fst[OF g]) simp
  then have t1: "t1 = foldl (note_hit s) t0 AI_PATTERNS" by (simp add: a)
  have "Specific language j \<notin> range General" for j by auto
  then have "lastIndex (snd (for_patterns General 0 AI_PATTERNS s (t0, fresh))) (Specific language j) = 0" for j
    by (simp add: for_patterns_other)
  then have st1: "\<forall>j \<ge> 0. lastIndex st1 (Specific language j) = 0" by (simp add: a)
  have sp: "inj (Specific language)" by (simp add: inj_def)
  show ?thesis
  proof (cases "LANGUAGE_PATTERNS language")
    case (Own ps)
    obtain t2 st2 where b: "for_patterns (Specific language) 0 ps s (t1, st1) = (t2, st2)"
      by (cases "for_patterns (Specific language) 0 ps s (t1, st1)")
    have "fst (for_patterns (Specific language) 0 ps s (t1, st1)) = foldl (note_hit s) t1 ps"
      by (rule for_patterns_fst[OF sp st1])
    then have "t2 = foldl (note_hit s) t1 ps" by (simp add: b)
    then show ?thesis using Own
      by (simp add: line_tally_def t0_def[symmetric] a b language_list_def) (simp add: t1)
  next
    case Inherited
    then show ?thesis using assms by simp
  next
    case Undefined
    then show ?thesis
      by (simp add: line_tally_def t0_def[symmetric] a language_list_def) (simp add: t1)
  qed
qed

lemma gap_weaken: "gap k t t' \<Longrightarrow> gap (Suc k) t t'"
  by (auto simp: gap_def field_simps)

lemma gap_mono: "gap k t t' \<Longrightarrow> k \<le> k' \<Longrightarrow> gap k' t t'"
  by (induction k' ) (auto simp: le_Suc_eq gap_weaken)

lemma gap_add_ai: "gap k t t' \<Longrightarrow> gap k (add_ai w why t) (add_ai w why t')"
  by (simp add: gap_def add_ai_def)

lemma gap_add_human:
  assumes "gap k t t'" "k \<le> 8" "0 \<le> w" "w \<le> 6 / 10"
  shows "gap (Suc k) (add_human w why t) (add_human w why t')"
proof -
  define h where "h = humanScore t"
  define h' where "h' = humanScore t'"
  define K :: real where "K = of_nat k"
  have g: "0 \<le> h" "h + (1 / 2 - K / 2 ^ 48) \<le> h'" "h' \<le> 1 / 2 + K" "aiScore t' = aiScore t"
    using assms(1) by (simp_all add: gap_def h_def h'_def K_def)
  have K: "0 \<le> K" "K \<le> 8" using assms(2) by (simp_all add: K_def)
  have hh: "h \<le> h'" using g(2) K by (simp add: field_simps; linarith)
  have p: "0 \<le> h + w" "0 \<le> h' + w" using g(1) hh assms(3) by simp_all
  note b = rnd_between[OF p(1)] rnd_between[OF p(2)]
  have 1: "0 \<le> rnd (h + w)" using p(1) by (rule rnd_nonneg)
  have 2: "rnd (h' + w) \<le> 1 / 2 + (K + 1)"
    using b(4) g(3) assms(4) K by (simp add: field_simps; linarith)
  have 3: "rnd (h + w) + (1 / 2 - (K + 1) / 2 ^ 48) \<le> rnd (h' + w)"
    using b(2) b(3) g(1,2,3) hh assms(3,4) K by (simp add: field_simps; linarith)
  show ?thesis
    using 1 2 3 g(4)
    by (simp add: gap_def add_human_def fadd_def h_def h'_def K_def add.commute)
qed

lemma gap_record:
  assumes "gap k t t'" "k \<le> 8" "0 \<le> weight p" "weight p \<le> 6 / 10"
  shows "gap (Suc k) (record_match p t) (record_match p t')"
  using assms by (simp add: record_match_def gap_add_human gap_add_ai gap_weaken)

lemma gap_foldl:
  assumes "\<forall>p \<in> set ps. hit (pattern p) s = hit (pattern p) s' \<and> 0 \<le> weight p \<and> weight p \<le> 6 / 10"
    "gap k t t'" "k + length ps \<le> 9"
  shows "gap (k + length ps) (foldl (note_hit s) t ps) (foldl (note_hit s') t' ps)"
  using assms
proof (induction ps arbitrary: k t t')
  case Nil
  then show ?case by simp
next
  case (Cons p ps)
  have k: "k \<le> 8" using Cons.prems(3) by simp
  have p: "hit (pattern p) s = hit (pattern p) s'" "0 \<le> weight p" "weight p \<le> 6 / 10"
    using Cons.prems(1) by simp_all
  have "gap (Suc k) (note_hit s t p) (note_hit s' t' p)"
    using gap_record[OF Cons.prems(2) k p(2,3)] gap_weaken[OF Cons.prems(2)] p(1)
    by (simp add: note_hit_def)
  moreover have "\<forall>p \<in> set ps. hit (pattern p) s = hit (pattern p) s' \<and> 0 \<le> weight p \<and> weight p \<le> 6 / 10"
    using Cons.prems(1) by simp
  moreover have "Suc k + length ps \<le> 9" using Cons.prems(3) by simp
  ultimately have "gap (Suc k + length ps) (foldl (note_hit s) (note_hit s t p) ps)
      (foldl (note_hit s') (note_hit s' t' p) ps)"
    by (intro Cons.IH)
  then show ?case by simp
qed

lemma heuristics_cong:
  "same_heuristics s s' \<Longrightarrow> heuristics s t = heuristics s' t"
  by (auto simp: same_heuristics_def heuristics_def Let_def)

lemma gap_heuristics:
  assumes "gap k t t'" "k \<le> 5"
  shows "gap (k + 3) (heuristics s t) (heuristics s t')"
proof -
  have w: "(0::real) \<le> rnd (1 / 10)" "rnd (1 / 10) \<le> (6::real) / 10"
    "(0::real) \<le> rnd (3 / 10)" "rnd (3 / 10) \<le> (6::real) / 10"
    by (simp_all add: rnd_1_10 rnd_3_10)
  define t1 where "t1 = (if 120 < length s
                then add_ai (rnd (2 / 10)) ''Very long line length typical of AI generation'' t
                else if length s < 20 \<and> string_match re_punctuation s = None
                then add_human (rnd (1 / 10)) ''Short, concise line suggests human writing'' t
                else t)"
  define t1' where "t1' = (if 120 < length s
                then add_ai (rnd (2 / 10)) ''Very long line length typical of AI generation'' t'
                else if length s < 20 \<and> string_match re_punctuation s = None
                then add_human (rnd (1 / 10)) ''Short, concise line suggests human writing'' t'
                else t')"
  have 1: "gap (Suc k) t1 t1'"
    using assms gap_add_human[OF assms(1) _ w(1,2)] gap_add_ai[OF assms(1)] gap_weaken
    by (auto simp: t1_def t1'_def)
  define t2 where "t2 = (if string_match re_imperfect s = None \<and> 30 < length s
                then add_ai (rnd (1 / 10)) ''Perfect syntax and structure'' t1 else t1)"
  define t2' where "t2' = (if string_match re_imperfect s = None \<and> 30 < length s
                then add_ai (rnd (1 / 10)) ''Perfect syntax and structure'' t1' else t1')"
  have 2: "gap (Suc k) t2 t2'" using 1 gap_add_ai by (auto simp: t2_def t2'_def)
  have k: "Suc k \<le> 8" using assms(2) by simp
  have 3: "gap (Suc (Suc k)) (heuristics s t) (heuristics s t')"
    using gap_add_human[OF 2 k w(3,4)] gap_weaken[OF 2]
    by (auto simp: heuristics_def Let_def t1_def t1'_def t2_def t2'_def)
  then show ?thesis by (rule gap_mono) simp
qed

lemma trim_Nil_iff: "trim s = [] \<longleftrightarrow> (\<forall>c \<in> set s. is_ws c)"
proof
  assume "trim s = []"
  then have all: "\<forall>c \<in> set (dropWhile is_ws s). is_ws c"
    by (simp add: trim_def dropWhile_eq_Nil_conv)
  have "dropWhile is_ws s = []"
  proof (rule ccontr)
    assume ne: "dropWhile is_ws s \<noteq> []"
    then have "\<not> is_ws (hd (dropWhile is_ws s))" by (rule hd_dropWhile)
    moreover have "hd (dropWhile is_ws s) \<in> set (dropWhile is_ws s)" using ne by simp
    ultimately show False using all by blast
  qed
  then show "\<forall>c \<in> set s. is_ws c" by (simp add: dropWhile_eq_Nil_conv)
next
  assume "\<forall>c \<in> set s. is_ws c"
  then have "dropWhile is_ws s = []" by (simp add: dropWhile_eq_Nil_conv)
  then show "trim s = []" by (simp only: trim_def rev.simps dropWhile.simps)
qed

lemma dropWhile_keeps:
  assumes "m \<noteq> []" "\<not> P (hd m)"
  shows "\<exists>a'. dropWhile P (a @ m @ b) = a' @ m @ b"
proof (cases "\<forall>x \<in> set a. P x")
  case True
  then have "dropWhile P (a @ m @ b) = dropWhile P (m @ b)" by (simp add: dropWhile_append)
  also have "\<dots> = [] @ m @ b" using assms by (cases m) simp_all
  finally show ?thesis by blast
next
  case False
  then have "dropWhile P (a @ m @ b) = dropWhile P a @ m @ b" by (auto simp: dropWhile_append)
  then show ?thesis by blast
qed

lemma trim_keeps:
  assumes "m \<noteq> []" "\<not> is_ws (hd m)" "\<not> is_ws (last m)"
  shows "\<exists>a' b'. trim (a @ m @ b) = a' @ m @ b'"
proof -
  obtain a' where a: "dropWhile is_ws (a @ m @ b) = a' @ m @ b"
    using dropWhile_keeps[of m is_ws a b] assms(1,2) by blast
  have "rev m \<noteq> []" "\<not> is_ws (hd (rev m))" using assms by (simp_all add: hd_rev)
  from dropWhile_keeps[of "rev m" is_ws "rev b" "rev a'"] this
  obtain b' where "dropWhile is_ws (rev b @ rev m @ rev a') = b' @ rev m @ rev a'" by blast
  then have "trim (a @ m @ b) = a' @ m @ rev b'" by (simp add: trim_def a)
  then show ?thesis by blast
qed

lemma trim_blank_around:
  assumes "m \<noteq> []" "\<not> is_ws (hd m)" "\<not> is_ws (last m)" "trim (a @ b) = []"
  shows "trim (a @ m @ b) = m"
proof -
  have ws: "\<forall>c \<in> set a. is_ws c" "\<forall>c \<in> set b. is_ws c" using assms(4) by (auto simp: trim_Nil_iff)
  have 1: "dropWhile is_ws (a @ m @ b) = m @ b"
    using ws(1) assms(1,2) by (cases m) (simp_all add: dropWhile_append)
  have "dropWhile is_ws (rev b @ rev m) = dropWhile is_ws (rev m)"
    using ws(2) by (simp add: dropWhile_append)
  also have "\<dots> = rev m" using assms(1,3) by (cases "rev m") (auto simp: hd_rev)
  finally show ?thesis by (simp add: trim_def 1)
qed

lemma scan_append:
  assumes "\<And>p pv. rmatch ic ml r (MState p pv rest' []) \<noteq> []"
  shows "scan ic ml r p pv (a @ rest') \<noteq> None"
proof (induction a arbitrary: p pv)
  case Nil
  show ?case using assms[of p pv] by (cases rest') (auto split: list.splits)
next
  case (Cons c a)
  show ?case using Cons.IH by (auto split: list.splits)
qed

lemma canon_marker:
  "canonicalize CHR ''T'' = CHR ''T''" "canonicalize CHR ''O'' = CHR ''O''"
  "canonicalize CHR ''D'' = CHR ''D''" "canonicalize CHR '':'' = CHR '':''"
  by code_simp+

lemma marker_matches:
  "rmatch True False (source re_todo) (MState p pv (''TODO:'' @ b) []) \<noteq> []"
  by (simp add: re_todo_def char_step_def same_char_def canon_marker)

lemma todo_found: "hit re_todo (a @ ''TODO:'' @ b)"
proof -
  have "scan True False (source re_todo) 0 None (a @ ''TODO:'' @ b) \<noteq> None"
    by (rule scan_append) (rule marker_matches)
  then show ?thesis by (simp add: hit_exec regexp_exec_def re_todo_def)
qed

lemma todo_found_trim: "hit re_todo (trim (a @ ''TODO:'' @ b))"
proof -
  have "\<not> is_ws CHR ''T''" "\<not> is_ws CHR '':''" by code_simp+
  then obtain a' b' where "trim (a @ ''TODO:'' @ b) = a' @ ''TODO:'' @ b'"
    using trim_keeps[of "''TODO:''" a b] by auto
  then show ?thesis by (simp only: todo_found)
qed

lemma todo_pattern_fields:
  "pattern todo_pattern = re_todo" "weight todo_pattern = rnd (5 / 10)"
  "aiIndicator todo_pattern = False"
  by (simp_all add: todo_pattern_def AI_PATTERNS_def)

lemma AI_PATTERNS_split:
  "AI_PATTERNS = take 4 AI_PATTERNS @ todo_pattern # drop 5 AI_PATTERNS"
  by (simp add: todo_pattern_def AI_PATTERNS_def)

lemma tally_split:
  "foldl (note_hit s) t AI_PATTERNS =
     foldl (note_hit s) (note_hit s (foldl (note_hit s) t (take 4 AI_PATTERNS)) todo_pattern)
       (drop 5 AI_PATTERNS)"
proof -
  define pre where "pre = take 4 AI_PATTERNS"
  define post where "post = drop 5 AI_PATTERNS"
  have "AI_PATTERNS = pre @ todo_pattern # post"
    using AI_PATTERNS_split by (simp add: pre_def post_def)
  then have "foldl (note_hit s) t AI_PATTERNS = foldl (note_hit s) t (pre @ todo_pattern # post)"
    by simp
  then show ?thesis by (simp add: pre_def post_def)
qed

lemma prefix_ai: "\<forall>p \<in> set (take 4 AI_PATTERNS). aiIndicator p"
  by (simp add: AI_PATTERNS_def)

lemma AI_PATTERNS_bounds:
  "\<forall>p \<in> set AI_PATTERNS. 0 \<le> weight p \<and> weight p \<le> 6 / 10 \<and> (aiIndicator p \<longrightarrow> 1 / 16 \<le> weight p)"
  by (simp add: AI_PATTERNS_def literals)

lemma language_list_cases:
  "language_list language \<in> {[], javascript_patterns, python_patterns, typescript_patterns}"
  by (simp add: language_list_def LANGUAGE_PATTERNS_def)

lemma language_list_bounds:
  "\<forall>p \<in> set (language_list language).
     0 \<le> weight p \<and> weight p \<le> 6 / 10 \<and> (aiIndicator p \<longrightarrow> 1 / 16 \<le> weight p)"
  using language_list_cases[of language]
  by (auto simp: javascript_patterns_def python_patterns_def typescript_patterns_def literals)

lemma language_list_length: "length (language_list language) \<le> 2"
  using language_list_cases[of language]
  by (auto simp: javascript_patterns_def python_patterns_def typescript_patterns_def)

lemma foldl_ai_human:
  "\<forall>p \<in> set ps. aiIndicator p \<Longrightarrow> humanScore (foldl (note_hit s) t ps) = humanScore t"
  by (induction ps arbitrary: t) (simp_all add: note_hit_def record_match_def add_ai_def)

lemma foldl_no_ai:
  "\<forall>p \<in> set ps. aiIndicator p \<longrightarrow> \<not> hit (pattern p) s \<Longrightarrow>
     aiScore (foldl (note_hit s) t ps) = aiScore t"
  by (induction ps arbitrary: t) (simp_all add: note_hit_def record_match_def add_human_def)

lemma foldl_same_hits:
  "\<forall>p \<in> set ps. hit (pattern p) s = hit (pattern p) s' \<Longrightarrow>
     foldl (note_hit s) t ps = foldl (note_hit s') t ps"
  by (induction ps arbitrary: t) (simp_all add: note_hit_def)

lemma record_match_noted: "noted (record_match p t) \<noteq> []"
  by (simp add: record_match_def add_ai_def add_human_def)

lemma foldl_noted: "noted t \<noteq> [] \<Longrightarrow> noted (foldl (note_hit s) t ps) \<noteq> []"
  by (induction ps arbitrary: t) (simp_all add: note_hit_def record_match_noted)

lemma foldl_quiet: "noted (foldl (note_hit s) t ps) = [] \<Longrightarrow> foldl (note_hit s) t ps = t"
proof (induction ps arbitrary: t)
  case Nil
  show ?case by simp
next
  case (Cons p ps)
  show ?case
  proof (cases "hit (pattern p) s")
    case True
    then have nh: "note_hit s t p = record_match p t" by (simp add: note_hit_def)
    have "noted (foldl (note_hit s) (record_match p t) ps) = []"
      using Cons.prems by (simp only: foldl_Cons nh)
    then show ?thesis using foldl_noted[OF record_match_noted, of s p t ps] by simp
  next
    case False
    then show ?thesis using Cons by (simp add: note_hit_def)
  qed
qed

lemma heuristics_quiet: "noted (heuristics s t) = [] \<Longrightarrow> heuristics s t = t"
  by (auto simp: heuristics_def Let_def add_ai_def add_human_def split: if_splits)

lemma leaning_add_human: "leaning t \<Longrightarrow> 0 \<le> w \<Longrightarrow> leaning (add_human w why t)"
  using rnd_mono[of "1 / 2" "humanScore t + w"] by (simp add: leaning_def add_human_def fadd_def)

lemma leaning_add_ai: "leaning t \<Longrightarrow> leaning (add_ai w why t)"
  by (simp add: leaning_def add_ai_def)

lemma leaning_note: "leaning t \<Longrightarrow> 0 \<le> weight p \<Longrightarrow> leaning (note_hit s t p)"
  by (simp add: note_hit_def record_match_def leaning_add_human leaning_add_ai)

lemma leaning_foldl:
  "\<forall>p \<in> set ps. 0 \<le> weight p \<Longrightarrow> leaning t \<Longrightarrow> leaning (foldl (note_hit s) t ps)"
  by (induction ps arbitrary: t) (simp_all add: leaning_note)

lemma leaning_heuristics: "leaning t \<Longrightarrow> leaning (heuristics s t)"
  by (simp add: heuristics_def Let_def leaning_add_human leaning_add_ai rnd_nonneg)

lemma grounded_add_ai: "grounded t \<Longrightarrow> 1 / 16 \<le> w \<Longrightarrow> grounded (add_ai w why t)"
  using rnd_mono[of "1 / 16" "aiScore t + w"] rnd_pow2[of "-4"]
  by (auto simp: grounded_def add_ai_def fadd_def power_int_minus)

lemma grounded_add_human: "grounded t \<Longrightarrow> grounded (add_human w why t)"
  by (simp add: grounded_def add_human_def)

lemma grounded_note:
  "grounded t \<Longrightarrow> aiIndicator p \<longrightarrow> 1 / 16 \<le> weight p \<Longrightarrow> grounded (note_hit s t p)"
  by (auto simp: note_hit_def record_match_def grounded_add_ai grounded_add_human)

lemma grounded_foldl:
  "\<forall>p \<in> set ps. aiIndicator p \<longrightarrow> 1 / 16 \<le> weight p \<Longrightarrow> grounded t \<Longrightarrow>
     grounded (foldl (note_hit s) t ps)"
  by (induction ps arbitrary: t) (simp_all add: grounded_note)

lemma grounded_heuristics: "grounded t \<Longrightarrow> grounded (heuristics s t)"
  by (simp add: heuristics_def Let_def grounded_add_ai grounded_add_human literals)

lemma quotient_mono:
  fixes A H H' T T' :: real
  assumes A: "1 / 16 \<le> A" "A \<le> H" and d: "H + 2 / 5 \<le> H'" and up: "H' \<le> 17 / 2"
    and T: "(A + H) * (1 - 1 / 2 ^ 53) \<le> T" and T': "T' \<le> (A + H') * (1 + 1 / 2 ^ 53)"
    and pos: "0 < T" "0 < T'"
  shows "H / T \<le> H' / T'"
proof -
  define P where "P = H * A"
  define Q where "Q = H' * A"
  define R where "R = H * H'"
  have H: "0 \<le> H" "0 \<le> H'" "H \<le> H'" "0 \<le> A" using A d by simp_all
  have "1 / 16 * (2 / 5) \<le> A * (H' - H)" using A d by (intro mult_mono) simp_all
  then have QP: "1 / 40 \<le> Q - P" by (simp add: P_def Q_def algebra_simps)
  have "H * A \<le> 17 / 2 * (17 / 2)" using A H up by (intro mult_mono) simp_all
  then have P: "P \<le> 289 / 4" by (simp add: P_def)
  have "H' * A \<le> 17 / 2 * (17 / 2)" using A H up by (intro mult_mono) simp_all
  then have Q: "Q \<le> 289 / 4" by (simp add: Q_def)
  have "H * H' \<le> 17 / 2 * (17 / 2)" using A H up by (intro mult_mono) simp_all
  then have R: "R \<le> 289 / 4" by (simp add: R_def)
  have "H * T' \<le> H * ((A + H') * (1 + 1 / 2 ^ 53))" using T' H(1) by (rule mult_left_mono)
  also have "\<dots> = (P + R) * (1 + 1 / 2 ^ 53)" by (simp add: P_def R_def algebra_simps)
  also have "\<dots> \<le> (Q + R) * (1 - 1 / 2 ^ 53)"
    using QP P Q R by (simp add: field_simps; linarith)
  also have "\<dots> = H' * ((A + H) * (1 - 1 / 2 ^ 53))" by (simp add: Q_def R_def algebra_simps)
  also have "\<dots> \<le> H' * T" using T H(2) by (rule mult_left_mono)
  finally have "H * T' \<le> H' * T" .
  then show ?thesis using pos by (simp add: field_simps)
qed

lemma confidence_mono:
  assumes s: "sound t" "sound t'" and g: "grounded t" and gp: "gap 8 t t'"
    and h: "\<not> humanScore t < aiScore t"
  shows "\<not> isAI (final_scores l' t') \<and> confidence (final_scores l t) \<le> confidence (final_scores l' t')"
proof -
  define A where "A = aiScore t"
  define H where "H = humanScore t"
  define H' where "H' = humanScore t'"
  have A': "aiScore t' = A" using gp by (simp add: gap_def A_def)
  have "H + (1 / 2 - 8 / 2 ^ 48) \<le> H'" "H' \<le> 1 / 2 + 8" using gp by (simp_all add: gap_def H_def H'_def)
  then have d: "H + 2 / 5 \<le> H'" and up: "H' \<le> 17 / 2" by simp_all
  have AH: "A \<le> H" "0 \<le> A" "0 \<le> H" "rnd H = H" "rnd H' = H'"
    using h s by (simp_all add: A_def H_def H'_def sound_def)
  have H': "0 < H'" "A \<le> H'" using d AH by simp_all
  define c where "c = (if 0 < fadd A H then fdiv (max A H) (fadd A H) else 1 / 2)"
  define c' where "c' = (if 0 < fadd A H' then fdiv (max A H') (fadd A H') else 1 / 2)"
  have conf: "confidence (final_scores l t) = min (max c (rnd (1 / 10))) (rnd (95 / 100))"
    by (simp add: final_scores_def Let_def c_def A_def H_def)
  have conf': "confidence (final_scores l' t') = min (max c' (rnd (1 / 10))) (rnd (95 / 100))"
    by (simp add: final_scores_def Let_def c'_def A' H'_def)
  have "c \<le> c'"
  proof (cases "A = 0")
    case True
    have "c' = 1" using H' AH by (simp add: c'_def True fadd_def fdiv_def)
    moreover have "c \<le> 1" using AH by (simp add: c_def True fadd_def fdiv_def)
    ultimately show ?thesis by simp
  next
    case False
    then have A: "1 / 16 \<le> A" using g by (simp add: grounded_def A_def)
    have p: "0 \<le> A + H" "0 \<le> A + H'" "0 < A + H" "0 < A + H'" using A AH H' by simp_all
    have T: "0 < fadd A H" "0 < fadd A H'" using p by (simp_all add: fadd_def rnd_pos)
    have "H / fadd A H \<le> H' / fadd A H'"
      using A AH(1) d up rnd_between(1)[OF p(1)] rnd_between(2)[OF p(2)] T
      unfolding fadd_def by (rule quotient_mono)
    moreover have "0 \<le> H / fadd A H" using AH T by simp
    ultimately have "rnd (H / fadd A H) \<le> rnd (H' / fadd A H')" by (intro rnd_mono)
    then show ?thesis using T AH H' by (simp add: c_def c'_def fdiv_def max_def)
  qed
  then have "min (max c (rnd (1 / 10))) (rnd (95 / 100)) \<le> min (max c' (rnd (1 / 10))) (rnd (95 / 100))"
    by (simp add: min_def max_def)
  moreover have "\<not> isAI (final_scores l' t')"
    using H' by (simp add: final_scores_def Let_def A' H'_def)
  ultimately show ?thesis by (simp add: conf conf')
qed

lemma line_tally_form:
  assumes "fst (line_tally s language fresh) = Inr t"
  shows "t = heuristics s (foldl (note_hit s) (foldl (note_hit s) empty_tally AI_PATTERNS)
               (language_list language))"
proof -
  have "LANGUAGE_PATTERNS language \<noteq> Inherited"
    using assms by (auto simp: line_tally_def split: prod.splits)
  from line_tally_fresh[OF this, of s] assms show ?thesis by simp
qed

lemma line_tally_fst_sound:
  assumes "fst (line_tally s language st) = Inr t"
  shows "sound t"
proof -
  have "line_tally s language st = (Inr t, snd (line_tally s language st))"
    using assms by (metis prod.collapse)
  then show ?thesis by (rule line_tally_sound)
qed

lemma analyzeLine_nonblank:
  assumes "trim l \<noteq> []" "fst (line_tally (trim l) language st) = Inr t"
  shows "fst (analyzeLine l n language st) = Inr (final_scores l t)"
  using assms by (auto simp: analyzeLine_def split: prod.splits sum.splits)

lemma line_tally_grounded:
  assumes "fst (line_tally s language fresh) = Inr t"
  shows "grounded t"
proof -
  have 0: "grounded empty_tally" by (simp add: grounded_def)
  have a: "\<forall>p \<in> set AI_PATTERNS. aiIndicator p \<longrightarrow> 1 / 16 \<le> weight p"
    using AI_PATTERNS_bounds by blast
  have l: "\<forall>p \<in> set (language_list language). aiIndicator p \<longrightarrow> 1 / 16 \<le> weight p"
    using language_list_bounds[of language] by blast
  have 1: "grounded (foldl (note_hit s) empty_tally AI_PATTERNS)"
    using a 0 by (rule grounded_foldl)
  have "grounded (foldl (note_hit s) (foldl (note_hit s) empty_tally AI_PATTERNS) (language_list language))"
    using l 1 by (rule grounded_foldl)
  then show ?thesis unfolding line_tally_form[OF assms] by (rule grounded_heuristics)
qed

lemma marked_tally_leaning:
  assumes "fst (line_tally s' language fresh) = Inr t'" "hit re_todo s'"
  shows "leaning t'"
proof -
  define ta where "ta = foldl (note_hit s') empty_tally (take 4 AI_PATTERNS)"
  have "humanScore ta = 0" unfolding ta_def using foldl_ai_human[OF prefix_ai] by simp
  then have 1: "leaning (note_hit s' ta todo_pattern)"
    using assms(2)
    by (simp add: note_hit_def todo_pattern_fields record_match_def add_human_def leaning_def fadd_def)
  have w: "\<forall>p \<in> set (drop 5 AI_PATTERNS). 0 \<le> weight p"
    using AI_PATTERNS_bounds by (auto dest: in_set_dropD)
  have 2: "leaning (foldl (note_hit s') empty_tally AI_PATTERNS)"
    unfolding tally_split ta_def[symmetric] using w 1 by (rule leaning_foldl)
  have "\<forall>p \<in> set (language_list language). 0 \<le> weight p"
    using language_list_bounds[of language] by simp
  then have "leaning (foldl (note_hit s') (foldl (note_hit s') empty_tally AI_PATTERNS) (language_list language))"
    using 2 by (rule leaning_foldl)
  then show ?thesis unfolding line_tally_form[OF assms(1)] by (rule leaning_heuristics)
qed

lemma neutral_tally:
  assumes "fst (line_tally s language fresh) = Inr t" "noted t = []"
  shows "t = empty_tally"
proof -
  define t2 where "t2 = foldl (note_hit s) (foldl (note_hit s) empty_tally AI_PATTERNS) (language_list language)"
  have t: "t = heuristics s t2" unfolding t2_def by (rule line_tally_form[OF assms(1)])
  then have "t = t2" using assms(2) heuristics_quiet[of s t2] by simp
  then have "noted t2 = []" "t = t2" using assms(2) by simp_all
  then have t1: "t2 = foldl (note_hit s) empty_tally AI_PATTERNS" "noted (foldl (note_hit s) empty_tally AI_PATTERNS) = []"
    using foldl_quiet[of s "foldl (note_hit s) empty_tally AI_PATTERNS" "language_list language"]
    by (simp_all add: t2_def)
  then have "foldl (note_hit s) empty_tally AI_PATTERNS = empty_tally" by (intro foldl_quiet)
  then show ?thesis using t1 \<open>t = t2\<close> by simp
qed

lemma marker_effect:
  assumes t: "fst (line_tally s language fresh) = Inr t"
    and t': "fst (line_tally s' language fresh) = Inr t'"
    and same: "same_outcomes language s s'"
    and mark: "hit re_todo s'"
  shows "if hit re_todo s then t' = t else gap 8 t t'"
proof -
  define pre where "pre = take 4 AI_PATTERNS"
  define post where "post = drop 5 AI_PATTERNS"
  define ll where "ll = language_list language"
  have hits: "\<forall>p \<in> set pre. hit (pattern p) s = hit (pattern p) s'"
    "\<forall>p \<in> set post. hit (pattern p) s = hit (pattern p) s'"
    "\<forall>p \<in> set ll. hit (pattern p) s = hit (pattern p) s'"
    and heur: "same_heuristics s s'"
    using same by (simp_all add: same_outcomes_def other_patterns_def list_all_iff pre_def post_def ll_def)
  define ta where "ta = foldl (note_hit s) empty_tally pre"
  have ta': "foldl (note_hit s') empty_tally pre = ta" unfolding ta_def using hits(1) by (simp add: foldl_same_hits)
  define tb where "tb = note_hit s ta todo_pattern"
  define tb' where "tb' = note_hit s' ta todo_pattern"
  define tc where "tc = foldl (note_hit s) tb post"
  define tc' where "tc' = foldl (note_hit s') tb' post"
  define td where "td = foldl (note_hit s) tc ll"
  define td' where "td' = foldl (note_hit s') tc' ll"
  have tt: "t = heuristics s td"
    unfolding line_tally_form[OF t] tally_split
    by (simp add: td_def tc_def tb_def ta_def pre_def post_def ll_def)
  have "t' = heuristics s' td'"
    unfolding line_tally_form[OF t'] tally_split
    by (simp add: td'_def tc'_def tb'_def ta'[unfolded pre_def] pre_def post_def ll_def)
  then have tt': "t' = heuristics s td'" using heuristics_cong[OF heur] by simp
  show ?thesis
  proof (cases "hit re_todo s")
    case True
    then have "tb' = tb" using mark by (simp add: tb_def tb'_def note_hit_def todo_pattern_fields)
    then have "tc' = tc" using hits(2) by (simp add: tc_def tc'_def foldl_same_hits)
    then have "td' = td" using hits(3) by (simp add: td_def td'_def foldl_same_hits)
    then show ?thesis using True tt tt' by simp
  next
    case False
    have h0: "humanScore ta = 0"
      unfolding ta_def pre_def using foldl_ai_human[OF prefix_ai] by simp
    have b: "tb = ta" using False by (simp add: tb_def note_hit_def todo_pattern_fields)
    have b': "tb' = add_human (rnd (5 / 10)) (reason todo_pattern) ta"
      using mark by (simp add: tb'_def note_hit_def todo_pattern_fields record_match_def)
    have g0: "gap 0 tb tb'"
      by (simp add: gap_def b b' add_human_def h0 fadd_def)
    have bounds: "\<forall>p \<in> set post. 0 \<le> weight p \<and> weight p \<le> 6 / 10"
      using AI_PATTERNS_bounds by (auto simp: post_def dest: in_set_dropD)
    have len: "length post = 3" by (simp add: post_def AI_PATTERNS_def)
    have "gap (0 + length post) tc tc'"
      unfolding tc_def tc'_def using hits(2) bounds g0 by (intro gap_foldl) (simp_all add: len)
    then have g3: "gap 3 tc tc'" by (simp add: len)
    have lbounds: "\<forall>p \<in> set ll. 0 \<le> weight p \<and> weight p \<le> 6 / 10"
      using language_list_bounds[of language] by (simp add: ll_def)
    have llen: "length ll \<le> 2" unfolding ll_def by (rule language_list_length)
    have "gap (3 + length ll) td td'"
      unfolding td_def td'_def using hits(3) lbounds g3 llen by (intro gap_foldl) simp_all
    then have "gap 5 td td'" by (rule gap_mono) (use llen in simp)
    then have "gap (5 + 3) (heuristics s td) (heuristics s td')" by (rule gap_heuristics) simp
    then show ?thesis using False tt tt' by simp
  qed
qed

lemma plain_tests:
  "regexp_test re_comment 0 ''x;'' = (False, 0)"
  "regexp_test re_generic 0 ''x;'' = (False, 0)"
  "regexp_test re_errors 0 ''x;'' = (False, 0)"
  "regexp_test re_repeat 0 ''x;'' = (False, 0)"
  "regexp_test re_todo 0 ''x;'' = (False, 0)"
  "regexp_test re_regex 0 ''x;'' = (False, 0)"
  "regexp_test re_spacing 0 ''x;'' = (False, 0)"
  "regexp_test re_abbrev 0 ''x;'' = (False, 0)"
  "regexp_test re_print 0 ''x;'' = (False, 0)"
  "regexp_test re_def 0 ''x;'' = (False, 0)"
  "string_match re_punctuation ''x;'' = Some (1, 2)"
  "string_match re_imperfect ''x;'' = None"
  "string_match re_quirky ''x;'' = None"
  "trim ''x;'' = ''x;''"
  "trim ''x; '' = ''x;''"
  "length ''x;'' = 2"
  by code_simp+

lemma marked_tests:
  "regexp_test re_comment 0 ''x; TODO:'' = (False, 0)"
  "regexp_test re_generic 0 ''x; TODO:'' = (False, 0)"
  "regexp_test re_errors 0 ''x; TODO:'' = (False, 0)"
  "regexp_test re_repeat 0 ''x; TODO:'' = (False, 0)"
  "regexp_test re_todo 0 ''x; TODO:'' = (True, 8)"
  "regexp_test re_regex 0 ''x; TODO:'' = (False, 0)"
  "regexp_test re_spacing 0 ''x; TODO:'' = (False, 0)"
  "regexp_test re_abbrev 0 ''x; TODO:'' = (False, 0)"
  "regexp_test re_print 0 ''x; TODO:'' = (False, 0)"
  "regexp_test re_def 0 ''x; TODO:'' = (False, 0)"
  "string_match re_punctuation ''x; TODO:'' = Some (1, 2)"
  "string_match re_imperfect ''x; TODO:'' = None"
  "string_match re_quirky ''x; TODO:'' = None"
  "trim ''x; TODO:'' = ''x; TODO:''"
  "length ''x; TODO:'' = 8"
  by code_simp+

lemma tied_tests:
  "regexp_test re_comment 0 ''x = x; foo'' = (False, 0)"
  "regexp_test re_generic 0 ''x = x; foo'' = (False, 0)"
  "regexp_test re_errors 0 ''x = x; foo'' = (False, 0)"
  "regexp_test re_repeat 0 ''x = x; foo'' = (True, 5)"
  "regexp_test re_todo 0 ''x = x; foo'' = (False, 0)"
  "regexp_test re_regex 0 ''x = x; foo'' = (False, 0)"
  "regexp_test re_spacing 0 ''x = x; foo'' = (False, 0)"
  "regexp_test re_abbrev 0 ''x = x; foo'' = (False, 0)"
  "regexp_test re_print 0 ''x = x; foo'' = (False, 0)"
  "regexp_test re_def 0 ''x = x; foo'' = (False, 0)"
  "string_match re_punctuation ''x = x; foo'' = Some (5, 6)"
  "string_match re_imperfect ''x = x; foo'' = None"
  "string_match re_quirky ''x = x; foo'' = Some (7, 10)"
  "trim ''x = x; foo'' = ''x = x; foo''"
  "trim ''x = x; foo '' = ''x = x; foo''"
  "length ''x = x; foo'' = 10"
  by code_simp+

lemma tied_marked_tests:
  "regexp_test re_comment 0 ''x = x; foo TODO:'' = (False, 0)"
  "regexp_test re_generic 0 ''x = x; foo TODO:'' = (False, 0)"
  "regexp_test re_errors 0 ''x = x; foo TODO:'' = (False, 0)"
  "regexp_test re_repeat 0 ''x = x; foo TODO:'' = (True, 5)"
  "regexp_test re_todo 0 ''x = x; foo TODO:'' = (True, 16)"
  "regexp_test re_regex 0 ''x = x; foo TODO:'' = (False, 0)"
  "regexp_test re_spacing 0 ''x = x; foo TODO:'' = (False, 0)"
  "regexp_test re_abbrev 0 ''x = x; foo TODO:'' = (False, 0)"
  "regexp_test re_print 0 ''x = x; foo TODO:'' = (False, 0)"
  "regexp_test re_def 0 ''x = x; foo TODO:'' = (False, 0)"
  "string_match re_punctuation ''x = x; foo TODO:'' = Some (5, 6)"
  "string_match re_imperfect ''x = x; foo TODO:'' = None"
  "string_match re_quirky ''x = x; foo TODO:'' = Some (7, 10)"
  "trim ''x = x; foo TODO:'' = ''x = x; foo TODO:''"
  "length ''x = x; foo TODO:'' = 16"
  by code_simp+

lemma marker_tests:
  "regexp_test re_comment 0 ''TODO:'' = (False, 0)"
  "regexp_test re_generic 0 ''TODO:'' = (False, 0)"
  "regexp_test re_errors 0 ''TODO:'' = (False, 0)"
  "regexp_test re_repeat 0 ''TODO:'' = (False, 0)"
  "regexp_test re_todo 0 ''TODO:'' = (True, 5)"
  "regexp_test re_regex 0 ''TODO:'' = (False, 0)"
  "regexp_test re_spacing 0 ''TODO:'' = (False, 0)"
  "regexp_test re_abbrev 0 ''TODO:'' = (False, 0)"
  "regexp_test re_console 0 ''TODO:'' = (False, 0)"
  "regexp_test re_function 0 ''TODO:'' = (False, 0)"
  "regexp_test re_print 0 ''TODO:'' = (False, 0)"
  "regexp_test re_def 0 ''TODO:'' = (False, 0)"
  "regexp_test re_annotation 0 ''TODO:'' = (False, 0)"
  "string_match re_punctuation ''TODO:'' = None"
  "string_match re_imperfect ''TODO:'' = None"
  "string_match re_quirky ''TODO:'' = None"
  "trim ''TODO:'' = ''TODO:''"
  "length ''TODO:'' = 5"
  by code_simp+

lemma sum_03_03: "fadd (5404319552844595 / 18014398509481984) (5404319552844595 / 18014398509481984) = 5404319552844595 / 9007199254740992"
  unfolding fadd_def using rnd_eqI[of "-53" "(5404319552844595 / 18014398509481984) + (5404319552844595 / 18014398509481984)" 5404319552844595]
  by (simp add: power_int_minus)

lemma quot_03_06: "fdiv (5404319552844595 / 18014398509481984) (5404319552844595 / 9007199254740992) = 1 / 2"
  by (simp add: fdiv_def)

lemma trim_marker_nonblank: "trim (a @ ''TODO:'' @ b) \<noteq> []"
proof -
  have "CHR ''T'' \<in> set (a @ ''TODO:'' @ b)" by simp
  moreover have "\<not> is_ws CHR ''T''" by code_simp
  ultimately show ?thesis unfolding trim_Nil_iff by blast
qed

lemma trim_marker_alone:
  assumes "trim (a @ b) = []"
  shows "trim (a @ ''TODO:'' @ b) = ''TODO:''"
proof -
  have "\<not> is_ws CHR ''T''" "\<not> is_ws CHR '':''" by code_simp+
  then show ?thesis using assms by (intro trim_blank_around) simp_all
qed

lemma heuristics_short_ai: "length s \<le> 30 \<Longrightarrow> aiScore (heuristics s t) = aiScore t"
  by (simp add: heuristics_def Let_def add_human_def)

lemma marker_alone:
  assumes "fst (line_tally ''TODO:'' language fresh) = Inr t'"
  shows "aiScore t' = 0"
proof -
  have g: "\<forall>p \<in> set AI_PATTERNS. aiIndicator p \<longrightarrow> \<not> hit (pattern p) ''TODO:''"
    by (simp add: AI_PATTERNS_def hit_def marker_tests)
  have l: "\<forall>p \<in> set (language_list language). aiIndicator p \<longrightarrow> \<not> hit (pattern p) ''TODO:''"
    using language_list_cases[of language]
    by (auto simp: javascript_patterns_def python_patterns_def typescript_patterns_def hit_def
        marker_tests)
  show ?thesis
    unfolding line_tally_form[OF assms]
    by (simp add: heuristics_short_ai foldl_no_ai[OF l] foldl_no_ai[OF g])
qed

lemma foo_lines:
  "fst (analyzeLine ''foo aaaaaaaaaaaaaaaaaaaaaaa'' n ''javascript'' fresh) = Inr foo_verdict"
  "fst (analyzeLine ''foo aaaaaaaaaaaaaaaaaaaaaaa TODO:'' n ''javascript'' fresh) = Inr foo_marked_verdict"
  by (simp_all add: line_defs foo_tests foo_todo_tests arith0 literals doubles sum_05_03 sum_01_08
      quot_08_09)

lemma plain_lines:
  "fst (line_tally ''x;'' ''python'' fresh) = Inr empty_tally"
  "fst (line_tally ''x; TODO:'' ''python'' fresh) = Inr marked_tally"
  "fst (analyzeLine ''x; '' n ''python'' fresh) = Inr plain_verdict"
  "fst (analyzeLine ''x; TODO:'' n ''python'' fresh) = Inr marked_verdict"
  by (simp_all add: line_defs plain_tests marked_tests arith0 literals doubles)

lemma tied_lines:
  "fst (line_tally ''x = x; foo'' ''python'' fresh) = Inr tied_tally"
  "fst (line_tally ''x = x; foo TODO:'' ''python'' fresh) = Inr tied_marked_tally"
  "fst (analyzeLine ''x = x; foo '' n ''python'' fresh) = Inr tied_verdict"
  "fst (analyzeLine ''x = x; foo TODO:'' n ''python'' fresh) = Inr tied_marked_verdict"
  by (simp_all add: line_defs tied_tests tied_marked_tests arith0 literals doubles sum_05_03
      sum_03_03 sum_03_08 quot_08_11 quot_03_06)

lemmas outcome_defs = same_outcomes_def other_patterns_def language_list_def same_heuristics_def
  hit_def LANGUAGE_PATTERNS_def object_prototype_keys_def python_patterns_def AI_PATTERNS_def

lemma plain_same: "same_outcomes ''python'' ''x;'' ''x; TODO:''"
  by (simp add: outcome_defs plain_tests marked_tests)

lemma tied_same: "same_outcomes ''python'' ''x = x; foo'' ''x = x; foo TODO:''"
  by (simp add: outcome_defs tied_tests tied_marked_tests)

section \<open>The claims\<close>

subsection \<open>C1: two calls in succession\<close>

text \<open>
  C1 says that calling \<^verbatim>\<open>analyzeCode\<close> twice in succession on the same code and language
  yields identical reports. The code does not do that: the expressions of the registry are
  global, \<^verbatim>\<open>test\<close> leaves the end of a match in \<^verbatim>\<open>lastIndex\<close>, and the next call searches from
  there. On \<^verbatim>\<open>"x = x;"\<close> the first call reports one AI line with confidence 0.95; the second
  call, started in the state the first one left, misses the self-assignment and reports one
  human line with confidence 0.5.
\<close>

theorem analyzeCode_twice_differs:
  "fst (analyzeCode ''x = x;'' ''javascript'' fresh) =
     Inr \<lparr>totalLines = 1, aiLines = 1, humanLines = 0, aiPercentage = 100, humanPercentage = 0,
          overallConfidence = 4278419646001971 / 4503599627370496,
          lineAnalysis = [xx_verdict]\<rparr>
   \<and> fst (analyzeCode ''x = x;'' ''javascript''
            (snd (analyzeCode ''x = x;'' ''javascript'' fresh))) =
     Inr \<lparr>totalLines = 1, aiLines = 0, humanLines = 1, aiPercentage = 0, humanPercentage = 100,
          overallConfidence = 1 / 2,
          lineAnalysis = [xx_missed]\<rparr>"
  by (simp add: xx_first xx_second)

subsection \<open>C2: every language identifier\<close>

text \<open>
  C2 says that \<^verbatim>\<open>analyzeCode\<close> returns a report for every code and every language string and
  never throws, an unrecognized language only skipping the language-specific patterns. The
  code throws for the language \<^verbatim>\<open>"constructor"\<close> on the one-line input \<^verbatim>\<open>"x"\<close>: the lookup
  finds the inherited \<^verbatim>\<open>Object.prototype.constructor\<close>, which \<^verbatim>\<open>|| []\<close> keeps and
  \<^verbatim>\<open>for ... of\<close> cannot iterate.
\<close>

theorem analyzeCode_throws_on_inherited_key:
  "fst (analyzeCode ''x'' ''constructor'' fresh) = Inl TypeError"
  by (simp add: analyzeCode_def x_tests line_defs)

subsection \<open>C3: the empty input\<close>

text \<open>
  C3 says that the empty code gives \<open>totalLines = 0\<close>, \<open>overallConfidence = 0.5\<close> and an empty
  sequence of line verdicts, for any language. The first two hold. The sequence is not empty:
  \<^verbatim>\<open>"".split('\n')\<close> is one empty line, which gets the blank-line verdict.
\<close>

theorem analyzeCode_empty_has_a_verdict:
  "map_sum id (\<lambda>r. lineAnalysis r = []) (fst (analyzeCode [] ''javascript'' fresh)) = Inr False
   \<and> map_sum id lineAnalysis (fst (analyzeCode [] ''javascript'' fresh)) =
       Inr [\<lparr>content = [], isAI = False, confidence = 1 / 2,
              reasons = [''Empty line - neutral'']\<rparr>]"
  by (simp add: analyzeCode_Nil)

text \<open>
  C3, amended: for the empty code and any language, in any state of the registry, the report
  has \<open>totalLines = 0\<close>, \<open>overallConfidence = 0.5\<close>, both percentages 0, and exactly one line
  verdict, the blank-line verdict of the empty line.
\<close>

theorem analyzeCode_empty:
  "fst (analyzeCode [] language st) =
     Inr \<lparr>totalLines = 0, aiLines = 0, humanLines = 0, aiPercentage = 0, humanPercentage = 0,
          overallConfidence = 1 / 2,
          lineAnalysis = [\<lparr>content = [], isAI = False, confidence = 1 / 2,
                           reasons = [''Empty line - neutral'']\<rparr>]\<rparr>"
  by (simp add: analyzeCode_Nil)

subsection \<open>C4: the line with a TODO comment\<close>

text \<open>
  C4 says that the line \<^verbatim>\<open>// TODO: fix this hack later\<close> collects \<open>aiScore = 0.3\<close> and
  \<open>humanScore = 0.8\<close> and is classified Human with confidence \<open>0.8 / 1.1\<close>, about 0.727, for
  any language. The code gives the AI score and the classification, but not the human score:
  the expression that is meant to find embedded regular-expression literals allows an empty
  body, so it matches the two slashes that open the comment (the match ends at index 2) and
  adds 0.3 for a regular expression that the line does not contain. The code computes
  \<open>humanScore = 1.1\<close> and the confidence \<open>1.1 / 1.4\<close>, about 0.786.
\<close>

theorem todo_line_is_not_as_claimed:
  "regexp_test re_regex 0 todo_line = (True, 2)
   \<and> fst (line_tally todo_line ''javascript'' fresh) = Inr todo_tally
   \<and> aiScore todo_tally = rnd (3 / 10)
   \<and> humanScore todo_tally = fadd (fadd (rnd (5 / 10)) (rnd (3 / 10))) (rnd (3 / 10))
   \<and> humanScore todo_tally \<noteq> fadd (rnd (5 / 10)) (rnd (3 / 10))
   \<and> map_sum id lineAnalysis (fst (analyzeCode todo_line ''javascript'' fresh)) = Inr [todo_verdict]
   \<and> \<not> isAI todo_verdict
   \<and> confidence todo_verdict
       \<noteq> fdiv (fadd (rnd (5 / 10)) (rnd (3 / 10)))
              (fadd (rnd (3 / 10)) (fadd (rnd (5 / 10)) (rnd (3 / 10))))
   \<and> (78 / 100 :: real) < confidence todo_verdict"
  using todo_tally_known[of "''javascript''"] todo_report[of "''javascript''"]
  by (simp add: literals todo_sums LANGUAGE_PATTERNS_def sum_03_08 quot_08_11 todo_tests)

subsection \<open>C5: counts and percentages\<close>

text \<open>
  C5 says that in every report \<open>aiLines + humanLines = totalLines\<close>, the number of verdicts of
  lines that are not blank, and that the two percentages add up to exactly 100 when
  \<open>totalLines > 0\<close> and are both 0 otherwise. The counts are as claimed. The percentages are
  two rounded quotients, each rounded again after the multiplication by 100, and their sum
  need not be 100: with one AI line out of three the report holds 33.33333333333333 and
  66.66666666666666, whose sum is 99.99999999999999, as a real number and in JavaScript.
\<close>

theorem percentages_do_not_add_up:
  "map_sum id (\<lambda>r. (aiPercentage r, humanPercentage r))
     (fst (analyzeCode (join_nl [''abc'', ''abc'', ''x = x;'']) ''javascript'' fresh))
     = Inr (2345624805922133 / 70368744177664, 2345624805922133 / 35184372088832)
   \<and> (2345624805922133 / 70368744177664 + 2345624805922133 / 35184372088832 :: real) \<noteq> 100
   \<and> fadd (2345624805922133 / 70368744177664) (2345624805922133 / 35184372088832) \<noteq> 100"
  by (simp add: three_report percent_total_3)

text \<open>
  C5, amended: in every report that \<^verbatim>\<open>analyzeCode\<close> returns,
  \<open>aiLines + humanLines = totalLines\<close>, which is the number of verdicts of lines that are not
  blank; both percentages are 0 when \<open>totalLines = 0\<close>; and when \<open>totalLines > 0\<close> the two
  percentages add up to 100 up to rounding, the sum differing from 100 by at most \<open>2\<^sup>-\<^sup>4\<^sup>5\<close>.
\<close>

theorem counts_and_percentages:
  assumes "fst (analyzeCode code language st) = Inr r"
  shows "aiLines r + humanLines r = totalLines r
       \<and> totalLines r = length (filter (\<lambda>v. trim (content v) \<noteq> []) (lineAnalysis r))
       \<and> (totalLines r = 0 \<longrightarrow> aiPercentage r = 0 \<and> humanPercentage r = 0)
       \<and> (0 < totalLines r \<longrightarrow> \<bar>aiPercentage r + humanPercentage r - 100\<bar> \<le> 1 / 2 ^ 45)"
proof -
  from assms obtain vs st' where r: "r = statistics vs" by (rule analyzeCode_cases)
  have le: "aiLines r \<le> totalLines r" unfolding r by (rule aiLines_le)
  have h: "humanLines r = totalLines r - aiLines r" by (simp add: r statistics_fields)
  have "\<bar>aiPercentage r + humanPercentage r - 100\<bar> \<le> 1 / 2 ^ 45" if "0 < totalLines r"
  proof -
    have "aiPercentage r = fmul (fdiv (of_nat (aiLines r)) (of_nat (totalLines r))) 100"
      "humanPercentage r
        = fmul (fdiv (of_nat (totalLines r - aiLines r)) (of_nat (totalLines r))) 100"
      using that unfolding h[symmetric] unfolding r by (simp_all only: statistics_fields(4,5) if_True)
    then show ?thesis using percent_sum[OF le that] by (simp only:)
  qed
  moreover have "totalLines r = 0 \<longrightarrow> aiPercentage r = 0 \<and> humanPercentage r = 0"
    unfolding r by (simp add: statistics_fields(4,5))
  moreover have "totalLines r = length (filter (\<lambda>v. trim (content v) \<noteq> []) (lineAnalysis r))"
    unfolding r by (simp add: statistics_fields(1))
  ultimately show ?thesis using le h by simp
qed

theorem counts_and_percentages_witness:
  "fst (analyzeCode (join_nl [''abc'', ''abc'', ''x = x;'']) ''javascript'' fresh) =
     Inr \<lparr>totalLines = 3, aiLines = 1, humanLines = 2,
          aiPercentage = 2345624805922133 / 70368744177664,
          humanPercentage = 2345624805922133 / 35184372088832,
          overallConfidence = 8556839292003941 / 9007199254740992,
          lineAnalysis = [abc_verdict, abc_verdict, xx_verdict]\<rparr>
   \<and> (1::nat) + 2 = 3
   \<and> (3::nat) = length (filter (\<lambda>v. trim (content v) \<noteq> []) [abc_verdict, abc_verdict, xx_verdict])
   \<and> (0::nat) < 3
   \<and> \<bar>2345624805922133 / 70368744177664 + 2345624805922133 / 35184372088832 - (100::real)\<bar>
       \<le> 1 / 2 ^ 45"
  using counts_and_percentages[of "join_nl [''abc'', ''abc'', ''x = x;'']" "''javascript''" fresh
      "\<lparr>totalLines = 3, aiLines = 1, humanLines = 2,
        aiPercentage = 2345624805922133 / 70368744177664,
        humanPercentage = 2345624805922133 / 35184372088832,
        overallConfidence = 8556839292003941 / 9007199254740992,
        lineAnalysis = [abc_verdict, abc_verdict, xx_verdict]\<rparr>"]
  by (simp add: three_report abc_tests xx_tests)

subsection \<open>C6: the range of a line's confidence\<close>

text \<open>
  C6: in every report that \<^verbatim>\<open>analyzeCode\<close> returns, the verdict of a line that is not blank has
  a confidence in \<open>[0.1, 0.95]\<close> (between the doubles that these literals denote, and hence
  between the decimal numbers too), and the verdict of a blank line has confidence exactly
  0.5 and is classified Human.
\<close>

theorem confidence_range:
  assumes "fst (analyzeCode code language st) = Inr r" and "v \<in> set (lineAnalysis r)"
  shows "if trim (content v) = [] then confidence v = 1 / 2 \<and> \<not> isAI v
         else rnd (1 / 10) \<le> confidence v \<and> confidence v \<le> rnd (95 / 100)
              \<and> 1 / 10 \<le> confidence v \<and> confidence v \<le> 95 / 100"
proof -
  from assms(1) obtain vs st' where
    a: "analyze_lines (analyzeCodeStructure code) language 0 (split_nl code) st = (Inr vs, st')"
    and r: "r = statistics vs" by (rule analyzeCode_cases)
  from assms(2) have "v \<in> set vs" by (simp add: r)
  with a have "settled v" by (rule analyze_lines_settled)
  moreover have "1 / 10 \<le> rnd (1 / 10)" "rnd (95 / 100) \<le> 95 / 100"
    by (simp_all add: rnd_1_10 rnd_19_20)
  ultimately show ?thesis by (auto simp: settled_def)
qed

theorem confidence_range_witness:
  "fst (analyzeCode (join_nl [''abc'', ''abc'', ''x = x;'']) ''javascript'' fresh) =
     Inr \<lparr>totalLines = 3, aiLines = 1, humanLines = 2,
          aiPercentage = 2345624805922133 / 70368744177664,
          humanPercentage = 2345624805922133 / 35184372088832,
          overallConfidence = 8556839292003941 / 9007199254740992,
          lineAnalysis = [abc_verdict, abc_verdict, xx_verdict]\<rparr>
   \<and> xx_verdict \<in> set [abc_verdict, abc_verdict, xx_verdict]
   \<and> rnd (1 / 10) \<le> confidence xx_verdict \<and> confidence xx_verdict \<le> rnd (95 / 100)
   \<and> 1 / 10 \<le> confidence xx_verdict \<and> confidence xx_verdict \<le> 95 / 100"
  using confidence_range[of "join_nl [''abc'', ''abc'', ''x = x;'']" "''javascript''" fresh
      "\<lparr>totalLines = 3, aiLines = 1, humanLines = 2,
        aiPercentage = 2345624805922133 / 70368744177664,
        humanPercentage = 2345624805922133 / 35184372088832,
        overallConfidence = 8556839292003941 / 9007199254740992,
        lineAnalysis = [abc_verdict, abc_verdict, xx_verdict]\<rparr>" xx_verdict]
  by (simp add: three_report xx_tests)

subsection \<open>C7: the structural boost and the independence of lines\<close>

text \<open>
  C7 says that the structural boost is the only interaction between lines: before the boost,
  the verdict of a line depends only on the text of that line and on the language. The code
  does not do that: the \<^verbatim>\<open>lastIndex\<close> that the test of one line leaves in a global expression
  decides where the test of the next line starts. In the two-line input below both lines are
  \<^verbatim>\<open>"x = x;"\<close>; the structural score is 0.3, so nothing is boosted; the first line is classified
  AI with confidence 0.95, the second Human with confidence 0.5. The same defect is behind C1.
\<close>

theorem verdict_depends_on_previous_line:
  "map_sum id lineAnalysis
     (fst (analyzeCode (join_nl [''x = x;'', ''x = x;'']) ''javascript'' fresh))
     = Inr [xx_verdict, xx_missed]
   \<and> analyzeCodeStructure (join_nl [''x = x;'', ''x = x;'']) = rnd (3 / 10)
   \<and> rnd (3 / 10) \<le> 1 / 2"
  by (simp add: two_lines two_structure rnd_3_10)

subsection \<open>C8: adding a TODO marker\<close>

text \<open>
  C8 says that adding a TODO marker to a neutral line strictly increases the line's human
  score, and that adding it to a line classified Human cannot decrease the line's confidence.
  The second part fails: the heuristics look at the length of the line, and the marker makes
  the line longer. The line \<^verbatim>\<open>foo aaaaaaaaaaaaaaaaaaaaaaa\<close> has 27 characters and one Human
  indication, the placeholder name, so its confidence is 0.95. With \<^verbatim>\<open> TODO:\<close> at its end it has
  33 characters, which brings in the AI indication for perfect syntax: 0.1 against 0.8, and
  the confidence is \<open>0.8 / 0.9\<close>, about 0.889.
\<close>

theorem todo_marker_lowers_confidence:
  "fst (analyzeLine ''foo aaaaaaaaaaaaaaaaaaaaaaa'' 1 ''javascript'' fresh) = Inr foo_verdict
   \<and> fst (analyzeLine ''foo aaaaaaaaaaaaaaaaaaaaaaa TODO:'' 1 ''javascript'' fresh)
       = Inr foo_marked_verdict
   \<and> \<not> isAI foo_verdict
   \<and> confidence foo_marked_verdict < confidence foo_verdict"
  by (simp add: foo_lines)

text \<open>
  C8, amended: with a freshly loaded registry, let a line be \<open>a @ b\<close> and let the marker
  \<^verbatim>\<open>TODO:\<close> be added between \<open>a\<close> and \<open>b\<close>. If the line is not blank and triggers no pattern
  and no heuristic, its human score is strictly smaller than that of the line with the marker.
  If the line is classified Human and the marker changes the outcome of no other pattern and
  of no heuristic, then the line with the marker is classified Human and its confidence is
  not smaller.
\<close>

theorem todo_marker_monotone:
  assumes t: "fst (line_tally (trim (a @ b)) language fresh) = Inr t"
    and t': "fst (line_tally (trim (a @ ''TODO:'' @ b)) language fresh) = Inr t'"
    and v: "fst (analyzeLine (a @ b) n language fresh) = Inr v"
    and v': "fst (analyzeLine (a @ ''TODO:'' @ b) n' language fresh) = Inr v'"
  shows "(trim (a @ b) \<noteq> [] \<and> noted t = [] \<longrightarrow> humanScore t < humanScore t')
       \<and> (\<not> isAI v \<and> same_outcomes language (trim (a @ b)) (trim (a @ ''TODO:'' @ b))
            \<longrightarrow> \<not> isAI v' \<and> confidence v \<le> confidence v')"
proof -
  define s where "s = trim (a @ b)"
  define s' where "s' = trim (a @ ''TODO:'' @ b)"
  note t = t[folded s_def] and t' = t'[folded s'_def]
  have mark: "hit re_todo s'" unfolding s'_def by (rule todo_found_trim)
  have v'_eq: "v' = final_scores (a @ ''TODO:'' @ b) t'"
    using analyzeLine_nonblank[OF trim_marker_nonblank, of a b language fresh t' n'] t' v'
    by (simp add: s'_def)
  have so: "sound t" "sound t'" using t t' by (auto intro: line_tally_fst_sound)
  have one: "humanScore t < humanScore t'" if "noted t = []"
  proof -
    have "t = empty_tally" using t that by (rule neutral_tally)
    moreover have "leaning t'" using t' mark by (rule marked_tally_leaning)
    ultimately show ?thesis by (simp add: leaning_def)
  qed
  have two: "\<not> isAI v' \<and> confidence v \<le> confidence v'"
    if human: "\<not> isAI v" and same: "same_outcomes language s s'"
  proof (cases "s = []")
    case True
    then have "s' = ''TODO:''" unfolding s_def s'_def by (rule trim_marker_alone)
    then have "aiScore t' = 0" using t' marker_alone by simp
    then have "\<not> isAI v'" using so(2) by (simp add: v'_eq final_scores_def Let_def sound_def)
    moreover have "confidence v = 1 / 2" using v True by (auto simp: analyzeLine_def s_def)
    moreover have "confident v'" unfolding v'_eq using so(2) by (rule final_scores_confident)
    ultimately show ?thesis by (simp add: confident_def)
  next
    case False
    then have v_eq: "v = final_scores (a @ b) t"
      using analyzeLine_nonblank[of "a @ b" language fresh t n] t v by (simp add: s_def)
    then have h: "\<not> humanScore t < aiScore t" using human by (simp add: final_scores_def Let_def)
    have g: "grounded t" using t by (rule line_tally_grounded)
    show ?thesis
    proof (cases "hit re_todo s")
      case True
      then have "t' = t" using marker_effect[OF t t' same mark] by simp
      then show ?thesis using human by (simp add: v_eq v'_eq final_scores_def Let_def)
    next
      case False
      then have "gap 8 t t'" using marker_effect[OF t t' same mark] by simp
      with so g show ?thesis unfolding v_eq v'_eq using h by (intro confidence_mono)
    qed
  qed
  show ?thesis using one two by (simp add: s_def s'_def)
qed

theorem todo_marker_monotone_witness:
  "fst (line_tally (trim ''x; '') ''python'' fresh) = Inr empty_tally
   \<and> fst (line_tally (trim ''x; TODO:'') ''python'' fresh) = Inr marked_tally
   \<and> fst (analyzeLine ''x; '' 1 ''python'' fresh) = Inr plain_verdict
   \<and> fst (analyzeLine ''x; TODO:'' 1 ''python'' fresh) = Inr marked_verdict
   \<and> trim ''x; '' \<noteq> [] \<and> noted empty_tally = [] \<and> \<not> isAI plain_verdict
   \<and> same_outcomes ''python'' (trim ''x; '') (trim ''x; TODO:'')
   \<and> humanScore empty_tally < humanScore marked_tally
   \<and> \<not> isAI marked_verdict \<and> confidence plain_verdict \<le> confidence marked_verdict
   \<and> fst (line_tally (trim ''x = x; foo '') ''python'' fresh) = Inr tied_tally
   \<and> fst (line_tally (trim ''x = x; foo TODO:'') ''python'' fresh) = Inr tied_marked_tally
   \<and> fst (analyzeLine ''x = x; foo '' 1 ''python'' fresh) = Inr tied_verdict
   \<and> fst (analyzeLine ''x = x; foo TODO:'' 1 ''python'' fresh) = Inr tied_marked_verdict
   \<and> \<not> isAI tied_verdict
   \<and> same_outcomes ''python'' (trim ''x = x; foo '') (trim ''x = x; foo TODO:'')
   \<and> \<not> isAI tied_marked_verdict \<and> confidence tied_verdict \<le> confidence tied_marked_verdict"
  using todo_marker_monotone[of "''x; ''" "[]" "''python''" empty_tally marked_tally 1 plain_verdict 1
      marked_verdict]
    todo_marker_monotone[of "''x = x; foo ''" "[]" "''python''" tied_tally tied_marked_tally 1
      tied_verdict 1 tied_marked_verdict]
  by (simp add: plain_tests marked_tests tied_tests tied_marked_tests plain_lines tied_lines
      plain_same tied_same)

subsection \<open>C9: no confidence below one half\<close>

text \<open>
  C9 says that every confidence in a report, of a line and overall, lies in \<open>[0.5, 0.95]\<close>.
  For the lines this holds. The overall confidence is a mean computed in floating point, and
  it can exceed 0.95: six lines \<^verbatim>\<open>"abc"\<close> have confidence 0.95 each, and the mean that
  the code computes from them is 0.9500000000000001.
\<close>

theorem overall_confidence_above_cap:
  "map_sum id overallConfidence
     (fst (analyzeCode (join_nl [''abc'', ''abc'', ''abc'', ''abc'', ''abc'', ''abc''])
            ''javascript'' fresh)) = Inr (8556839292003943 / 9007199254740992)
   \<and> rnd (95 / 100) < 8556839292003943 / 9007199254740992
   \<and> (95 / 100 :: real) < 8556839292003943 / 9007199254740992"
  by (simp add: six_report rnd_19_20)

text \<open>
  C9, amended: in every report that \<^verbatim>\<open>analyzeCode\<close> returns, the confidence of every line
  verdict lies in \<open>[0.5, 0.95]\<close>; the overall confidence is at least 0.5 (for fewer than
  \<open>2\<^sup>5\<^sup>3\<close> lines) and exceeds 0.95 by no more than the rounding error of the mean: it is at
  most \<open>0.95 \<sqdot> (1 + 2\<^sup>-\<^sup>5\<^sup>3)\<^sup>n\<^sup>+\<^sup>1\<close> for \<open>n = totalLines\<close>. The lower clamp at 0.1 never binds.
\<close>

theorem confidence_at_least_half:
  assumes "fst (analyzeCode code language st) = Inr r"
  shows "(\<forall>v \<in> set (lineAnalysis r). 1 / 2 \<le> confidence v \<and> confidence v \<le> rnd (95 / 100))
       \<and> overallConfidence r \<le> rnd (95 / 100) * (1 + 1 / 2 ^ 53) ^ (totalLines r + 1)
       \<and> (totalLines r \<le> 2 ^ 53 \<longrightarrow> 1 / 2 \<le> overallConfidence r)"
proof -
  from assms obtain vs st' where
    a: "analyze_lines (analyzeCodeStructure code) language 0 (split_nl code) st = (Inr vs, st')"
    and r: "r = statistics vs" by (rule analyzeCode_cases)
  have all: "\<forall>v \<in> set vs. confident v" using a analyze_lines_confident by blast
  define ne where "ne = filter (\<lambda>l. trim (content l) \<noteq> []) vs"
  have ne: "\<forall>v \<in> set ne. confident v" using all by (simp add: ne_def)
  have t: "totalLines r = length ne" by (simp add: r statistics_fields ne_def)
  have "overallConfidence r \<le> rnd (95 / 100) * (1 + 1 / 2 ^ 53) ^ (totalLines r + 1)
       \<and> (totalLines r \<le> 2 ^ 53 \<longrightarrow> 1 / 2 \<le> overallConfidence r)"
  proof (cases "0 < length ne")
    case True
    then have o: "overallConfidence r =
        fdiv (foldl (\<lambda>sum line. fadd sum (confidence line)) 0 ne) (of_nat (length ne))"
      using t by (simp add: r statistics_fields ne_def)
    show ?thesis unfolding o t using mean_bounds[OF ne True] by simp
  next
    case False
    then have "overallConfidence r = 1 / 2" "totalLines r = 0"
      using t by (simp_all add: r statistics_fields ne_def)
    then show ?thesis by (simp add: rnd_19_20)
  qed
  then show ?thesis using all by (simp add: r confident_def)
qed

theorem confidence_at_least_half_witness:
  "fst (analyzeCode (join_nl [''abc'', ''abc'', ''x = x;'']) ''javascript'' fresh) =
     Inr \<lparr>totalLines = 3, aiLines = 1, humanLines = 2,
          aiPercentage = 2345624805922133 / 70368744177664,
          humanPercentage = 2345624805922133 / 35184372088832,
          overallConfidence = 8556839292003941 / 9007199254740992,
          lineAnalysis = [abc_verdict, abc_verdict, xx_verdict]\<rparr>
   \<and> 1 / 2 \<le> confidence abc_verdict \<and> confidence abc_verdict \<le> rnd (95 / 100)
   \<and> 1 / 2 \<le> confidence xx_verdict \<and> confidence xx_verdict \<le> rnd (95 / 100)
   \<and> (8556839292003941 / 9007199254740992 :: real) \<le> rnd (95 / 100) * (1 + 1 / 2 ^ 53) ^ (3 + 1)
   \<and> (3::nat) \<le> 2 ^ 53
   \<and> (1 / 2 :: real) \<le> 8556839292003941 / 9007199254740992"
  using confidence_at_least_half[of "join_nl [''abc'', ''abc'', ''x = x;'']" "''javascript''" fresh
      "\<lparr>totalLines = 3, aiLines = 1, humanLines = 2,
        aiPercentage = 2345624805922133 / 70368744177664,
        humanPercentage = 2345624805922133 / 35184372088832,
        overallConfidence = 8556839292003941 / 9007199254740992,
        lineAnalysis = [abc_verdict, abc_verdict, xx_verdict]\<rparr>"]
  by (simp add: three_report)

subsection \<open>C10: one verdict for every line\<close>

text \<open>
  C10: in every report that \<^verbatim>\<open>analyzeCode\<close> returns, the sequence of line verdicts has as many
  entries as the code has newline characters, plus one; the entries are in the order of the
  lines, and each holds the raw text of its line. The lines are the pieces between the
  newline characters: joined with newlines they give the code back, and none contains a
  newline.
\<close>

theorem one_verdict_per_line:
  assumes "fst (analyzeCode code language st) = Inr r"
  shows "length (lineAnalysis r) = count_list code (CHR 0x0A) + 1
         \<and> map content (lineAnalysis r) = split_nl code
         \<and> join_nl (split_nl code) = code
         \<and> (\<forall>l \<in> set (split_nl code). CHR 0x0A \<notin> set l)"
proof -
  have m: "map content (lineAnalysis r) = split_nl code" using assms by (rule analyzeCode_lines)
  then have "length (lineAnalysis r) = length (split_nl code)" by (metis length_map)
  then show ?thesis using m by (simp add: length_split_nl join_split_nl split_nl_no_newline)
qed

theorem one_verdict_per_line_witness:
  "fst (analyzeCode (join_nl [''abc'', ''abc'', ''x = x;'']) ''javascript'' fresh) =
     Inr \<lparr>totalLines = 3, aiLines = 1, humanLines = 2,
          aiPercentage = 2345624805922133 / 70368744177664,
          humanPercentage = 2345624805922133 / 35184372088832,
          overallConfidence = 8556839292003941 / 9007199254740992,
          lineAnalysis = [abc_verdict, abc_verdict, xx_verdict]\<rparr>
   \<and> length [abc_verdict, abc_verdict, xx_verdict]
       = count_list (join_nl [''abc'', ''abc'', ''x = x;'']) (CHR 0x0A) + 1
   \<and> map content [abc_verdict, abc_verdict, xx_verdict] = [''abc'', ''abc'', ''x = x;'']
   \<and> split_nl (join_nl [''abc'', ''abc'', ''x = x;'']) = [''abc'', ''abc'', ''x = x;'']"
  using one_verdict_per_line[of "join_nl [''abc'', ''abc'', ''x = x;'']" "''javascript''" fresh
      "\<lparr>totalLines = 3, aiLines = 1, humanLines = 2,
        aiPercentage = 2345624805922133 / 70368744177664,
        humanPercentage = 2345624805922133 / 35184372088832,
        overallConfidence = 8556839292003941 / 9007199254740992,
        lineAnalysis = [abc_verdict, abc_verdict, xx_verdict]\<rparr>"]
  by (simp add: three_report three_code)

end
